(* ===== verification/Prelude.thy ===== *)
theory Prelude
  imports Main
begin

text \<open>
  Shared vocabulary of the development: the ways a C++ call can end, the exceptions the
  library throws, the shape of every \<open>poll\<close> member function, and the generic facts on
  lists, options and runs that the component theories use.

  A call of a C++ function is modelled by a value of type \<open>'a outcome\<close>: it returns, it
  throws, or it ends the process (a failed \<open>assert\<close>, a dereferenced null pointer).  A
  \<open>poll\<close> takes the object and the rest of the world and gives the outcome with both of
  them updated; \<open>None\<close> is a call that never returns (a \<open>while (true)\<close> that is never
  left).  Assertions are modelled as enabled, which is the build the project's
  \<open>CMakeLists.txt\<close> produces (it never defines \<open>NDEBUG\<close>).
\<close>

named_theorems poll_simps \<open>unfolding rules for the poll functions of futures and streams\<close>
named_theorems chan_simps \<open>unfolding rules for channel and dispatcher operations\<close>
named_theorems byte_simps \<open>facts on byte strings and buffer chains\<close>

subsection \<open>Outcomes and exceptions\<close>

datatype cancel_reason =
    CancelUnknown
  | ExecutorShutdown
  | IOObjectShutdown
  | UserCancel

text \<open>
  \<open>UserError n\<close> stands for any exception of user code that derives from
  \<open>std::exception\<close>; \<open>NonStd n\<close> for a thrown object that does not, which the library's
  \<open>catch (const std::exception&)\<close> clauses let through.  \<open>EmptyWrapper\<close> is what an
  \<open>exception_wrapper\<close> holds after it was moved from.
\<close>

datatype exn =
    InvalidPollStateException
  | InvalidChannelStateException
  | MovedFutureException
  | FutureCancelledException string cancel_reason
  | FutureEmptySetException
  | EventException string
  | IOError string
  | DispatchException string
  | TimeoutException string
  | PromiseException
  | AsyncNotReadyException
  | OptionalEmptyException
  | EitherEmptyException
  | UsingUninitializedTry
  | TryException string
  | RuntimeError string
  | InvalidArgument string
  | UserError nat
  | NonStd nat
  | EmptyWrapper

fun is_std :: "exn \<Rightarrow> bool" where
  "is_std (NonStd _) = False"
| "is_std EmptyWrapper = False"
| "is_std _ = True"

datatype 'a outcome =
    Ret 'a
  | Throw exn
  | Abort

subsection \<open>Calls of member functions\<close>

type_synonym ('s, 'w, 'a) member_call = "('a outcome \<times> 's \<times> 'w) option"
type_synonym ('s, 'w, 'a) member_fn = "'s \<Rightarrow> 'w \<Rightarrow> ('s, 'w, 'a) member_call"
type_synonym ('x, 'w, 'y) callback = "'x \<Rightarrow> 'w \<Rightarrow> ('y outcome \<times> 'w) option"

text \<open>
  \<open>call m wrap k\<close> continues with \<open>k\<close> after the member call \<open>m\<close> of a sub-object
  returned; when it throws or aborts, the owner is rebuilt by \<open>wrap\<close> around the
  sub-object and the exception goes on to the owner's caller.
\<close>

definition call ::
  "('t, 'w, 'x) member_call \<Rightarrow> ('t \<Rightarrow> 's) \<Rightarrow> ('x \<Rightarrow> 't \<Rightarrow> 'w \<Rightarrow> ('s, 'w, 'a) member_call)
   \<Rightarrow> ('s, 'w, 'a) member_call" where
  "call m wrap k =
     (case m of
        None \<Rightarrow> None
      | Some (Ret x, t, w) \<Rightarrow> k x t w
      | Some (Throw e, t, w) \<Rightarrow> Some (Throw e, wrap t, w)
      | Some (Abort, t, w) \<Rightarrow> Some (Abort, wrap t, w))"

text \<open>
  \<open>try_callback m s h k\<close> is a callback invocation inside
  \<open>try { ... } catch (const std::exception&) { ... }\<close>: a standard exception goes to the
  handler \<open>h\<close>, anything else leaves the enclosing member function.
\<close>

definition try_callback ::
  "('y outcome \<times> 'w) option \<Rightarrow> 's \<Rightarrow> (exn \<Rightarrow> 'w \<Rightarrow> ('s, 'w, 'a) member_call)
   \<Rightarrow> ('y \<Rightarrow> 'w \<Rightarrow> ('s, 'w, 'a) member_call) \<Rightarrow> ('s, 'w, 'a) member_call" where
  "try_callback m s h k =
     (case m of
        None \<Rightarrow> None
      | Some (Ret y, w) \<Rightarrow> k y w
      | Some (Throw e, w) \<Rightarrow> (if is_std e then h e w else Some (Throw e, s, w))
      | Some (Abort, w) \<Rightarrow> Some (Abort, s, w))"

definition run_callback ::
  "('y outcome \<times> 'w) option \<Rightarrow> 's \<Rightarrow> ('y \<Rightarrow> 'w \<Rightarrow> ('s, 'w, 'a) member_call)
   \<Rightarrow> ('s, 'w, 'a) member_call" where
  "run_callback m s k =
     (case m of
        None \<Rightarrow> None
      | Some (Ret y, w) \<Rightarrow> k y w
      | Some (Throw e, w) \<Rightarrow> Some (Throw e, s, w)
      | Some (Abort, w) \<Rightarrow> Some (Abort, s, w))"

lemma call_simps [simp, poll_simps]:
  "call None wrap k = None"
  "call (Some (Ret x, t, w)) wrap k = k x t w"
  "call (Some (Throw e, t, w)) wrap k = Some (Throw e, wrap t, w)"
  "call (Some (Abort, t, w)) wrap k = Some (Abort, wrap t, w)"
  by (simp_all add: call_def)

lemma try_callback_simps [simp, poll_simps]:
  "try_callback None s h k = None"
  "try_callback (Some (Ret y, w)) s h k = k y w"
  "try_callback (Some (Throw e, w)) s h k =
     (if is_std e then h e w else Some (Throw e, s, w))"
  "try_callback (Some (Abort, w)) s h k = Some (Abort, s, w)"
  by (simp_all add: try_callback_def)

lemma run_callback_simps [simp, poll_simps]:
  "run_callback None s k = None"
  "run_callback (Some (Ret y, w)) s k = k y w"
  "run_callback (Some (Throw e, w)) s k = Some (Throw e, s, w)"
  "run_callback (Some (Abort, w)) s k = Some (Abort, s, w)"
  by (simp_all add: run_callback_def)

text \<open>A member call is exactly one of four things; the component proofs split along it.\<close>

lemma member_call_cases [case_names Diverges Returns Throws Aborts]:
  fixes m :: "('s, 'w, 'a) member_call"
  obtains "m = None"
  | x s w where "m = Some (Ret x, s, w)"
  | e s w where "m = Some (Throw e, s, w)"
  | s w where "m = Some (Abort, s, w)"
proof (cases m)
  case None
  then show thesis by (rule that(1))
next
  case (Some t)
  obtain r s w where t: "t = (r, s, w)" by (cases t)
  show thesis
    using Some t that by (cases r) auto
qed

lemma callback_cases [case_names Diverges Returns Throws Aborts]:
  fixes m :: "('y outcome \<times> 'w) option"
  obtains "m = None"
  | y w where "m = Some (Ret y, w)"
  | e w where "m = Some (Throw e, w)"
  | w where "m = Some (Abort, w)"
proof (cases m)
  case None
  then show thesis by (rule that(1))
next
  case (Some t)
  obtain r w where t: "t = (r, w)" by (cases t)
  show thesis
    using Some t that by (cases r) auto
qed

text \<open>Loops of the source are partial functions; these rules let them recurse under a call.\<close>

lemma call_mono [partial_function_mono]:
  assumes "\<And>x t w. monotone (fun_ord option_ord) option_ord (\<lambda>f. k f x t w)"
  shows "monotone (fun_ord option_ord) option_ord (\<lambda>f. call m wrap (k f))"
  using assms by (cases m rule: member_call_cases) (simp_all add: monotone_def flat_ord_def)

lemma try_callback_mono [partial_function_mono]:
  assumes "\<And>e w. monotone (fun_ord option_ord) option_ord (\<lambda>f. h f e w)"
    and "\<And>y w. monotone (fun_ord option_ord) option_ord (\<lambda>f. k f y w)"
  shows "monotone (fun_ord option_ord) option_ord (\<lambda>f. try_callback m s (h f) (k f))"
  using assms
  by (auto simp: monotone_def try_callback_def flat_ord_def split: option.split outcome.split)

lemma run_callback_mono [partial_function_mono]:
  assumes "\<And>y w. monotone (fun_ord option_ord) option_ord (\<lambda>f. k f y w)"
  shows "monotone (fun_ord option_ord) option_ord (\<lambda>f. run_callback m s (k f))"
  using assms
  by (auto simp: monotone_def run_callback_def flat_ord_def split: option.split outcome.split)

end
