(* ===== verification/Core_Types.thy ===== *)
theory Core_Types
  imports Prelude
begin

text \<open>
  The value types every future is built from: \<open>folly::Try\<close> (\<open>core/Try.h\<close>,
  \<open>core/Try-inl.h\<close>), \<open>folly::Optional\<close> (\<open>core/Optional.h\<close>), \<open>folly::Either\<close>
  (\<open>core/Either.h\<close>), and \<open>Async\<close>/\<open>Poll\<close> with their constructors (\<open>Async.h\<close>,
  \<open>Stream.h\<close>).  An \<open>Optional\<close> is an \<open>option\<close>: its storage flag \<open>hasValue\<close> is the
  constructor.  The lemmas give the laws the other components rely on: what an access
  returns after an assignment, and that a move constructor leaves its source empty.
\<close>

subsection \<open>Try\<close>

datatype 'a Try =
    Value 'a
  | Exception exn
  | Nothing

definition try_hasValue :: "'a Try \<Rightarrow> bool" where
  "try_hasValue t = (case t of Value _ \<Rightarrow> True | _ \<Rightarrow> False)"

definition try_hasException :: "'a Try \<Rightarrow> bool" where
  "try_hasException t = (case t of Exception _ \<Rightarrow> True | _ \<Rightarrow> False)"

fun throwIfFailed :: "'a Try \<Rightarrow> unit outcome" where
  "throwIfFailed (Value _) = Ret ()"
| "throwIfFailed (Exception e) = Throw e"
| "throwIfFailed Nothing = Throw UsingUninitializedTry"

definition try_value :: "'a Try \<Rightarrow> 'a outcome" where
  "try_value t =
     (case throwIfFailed t of
        Throw e \<Rightarrow> Throw e
      | Abort \<Rightarrow> Abort
      | Ret _ \<Rightarrow> (case t of Value v \<Rightarrow> Ret v | _ \<Rightarrow> Abort))"

definition try_exception :: "'a Try \<Rightarrow> exn outcome" where
  "try_exception t =
     (case t of
        Exception e \<Rightarrow> Ret e
      | _ \<Rightarrow> Throw (TryException ''exception(): Try does not contain an exception''))"

text \<open>\<open>moveFromTry\<close> reads the value out; what is left behind is the moved-from residue.\<close>

definition moveFromTry :: "('a \<Rightarrow> 'a) \<Rightarrow> 'a Try \<Rightarrow> 'a outcome \<times> 'a Try" where
  "moveFromTry moved t =
     (try_value t, (case t of Value v \<Rightarrow> Value (moved v) | _ \<Rightarrow> t))"

text \<open>
  \<open>makeTryWith\<close> captures whatever the function throws; the wrapper made by
  \<open>catch (...)\<close> holds the object as well.
\<close>

definition makeTryWith :: "(unit, 'w, 'a) callback \<Rightarrow> 'w \<Rightarrow> ('a Try outcome \<times> 'w) option" where
  "makeTryWith f w =
     (case f () w of
        None \<Rightarrow> None
      | Some (Ret v, w') \<Rightarrow> Some (Ret (Value v), w')
      | Some (Throw e, w') \<Rightarrow> Some (Ret (Exception e), w')
      | Some (Abort, w') \<Rightarrow> Some (Abort, w'))"

text \<open>The move constructor of \<open>Try\<close> keeps the tag of its source.\<close>

definition try_move_construct :: "('a \<Rightarrow> 'a) \<Rightarrow> 'a Try \<Rightarrow> 'a Try \<times> 'a Try" where
  "try_move_construct moved t =
     (case t of
        Value v \<Rightarrow> (Value v, Value (moved v))
      | Exception e \<Rightarrow> (Exception e, Exception EmptyWrapper)
      | Nothing \<Rightarrow> (Nothing, Nothing))"

subsection \<open>Optional\<close>

definition opt_value :: "'a option \<Rightarrow> 'a outcome" where
  "opt_value x = (case x of Some v \<Rightarrow> Ret v | None \<Rightarrow> Throw OptionalEmptyException)"

definition opt_value_or :: "'a option \<Rightarrow> 'a \<Rightarrow> 'a" where
  "opt_value_or x d = (case x of Some v \<Rightarrow> v | None \<Rightarrow> d)"

text \<open>Move construction and move assignment: result and what is left of the source.\<close>

definition opt_move_construct :: "'a option \<Rightarrow> 'a option \<times> 'a option" where
  "opt_move_construct src = (case src of Some v \<Rightarrow> (Some v, None) | None \<Rightarrow> (None, None))"

definition opt_move_assign :: "'a option \<Rightarrow> 'a option \<Rightarrow> 'a option \<times> 'a option" where
  "opt_move_assign dst src = (case src of Some v \<Rightarrow> (Some v, None) | None \<Rightarrow> (None, None))"

definition opt_emplace :: "'a option \<Rightarrow> 'a \<Rightarrow> 'a option" where
  "opt_emplace x v = Some v"

definition opt_less :: "('a \<Rightarrow> 'a \<Rightarrow> bool) \<Rightarrow> 'a option \<Rightarrow> 'a option \<Rightarrow> bool" where
  "opt_less lt a b =
     (case (a, b) of
        (None, None) \<Rightarrow> False
      | (None, Some _) \<Rightarrow> True
      | (Some _, None) \<Rightarrow> False
      | (Some x, Some y) \<Rightarrow> lt x y)"

subsection \<open>Either\<close>

datatype ('l, 'r) Either =
    Left 'l
  | Right 'r
  | Uninit

definition hasLeft :: "('l, 'r) Either \<Rightarrow> bool" where
  "hasLeft e = (case e of Left _ \<Rightarrow> True | _ \<Rightarrow> False)"

definition hasRight :: "('l, 'r) Either \<Rightarrow> bool" where
  "hasRight e = (case e of Right _ \<Rightarrow> True | _ \<Rightarrow> False)"

definition either_left :: "('l, 'r) Either \<Rightarrow> 'l outcome" where
  "either_left e = (case e of Left x \<Rightarrow> Ret x | _ \<Rightarrow> Throw EitherEmptyException)"

definition either_right :: "('l, 'r) Either \<Rightarrow> 'r outcome" where
  "either_right e = (case e of Right x \<Rightarrow> Ret x | _ \<Rightarrow> Throw EitherEmptyException)"

definition assignLeft :: "('l, 'r) Either \<Rightarrow> 'l \<Rightarrow> ('l, 'r) Either" where
  "assignLeft e x = Left x"

definition assignRight :: "('l, 'r) Either \<Rightarrow> 'r \<Rightarrow> ('l, 'r) Either" where
  "assignRight e x = Right x"

text \<open>
  \<open>assign(Either&&)\<close>: destination and source afterwards; assigning an object to itself
  changes nothing.
\<close>

definition either_move_assign ::
  "bool \<Rightarrow> ('l, 'r) Either \<Rightarrow> ('l, 'r) Either \<Rightarrow> ('l, 'r) Either \<times> ('l, 'r) Either" where
  "either_move_assign same dst src =
     (if same then (dst, src)
      else (case src of
              Left x \<Rightarrow> (assignLeft Uninit x, Uninit)
            | Right y \<Rightarrow> (assignRight Uninit y, Uninit)
            | Uninit \<Rightarrow> (Uninit, Uninit)))"

definition either_copy_assign ::
  "bool \<Rightarrow> ('l, 'r) Either \<Rightarrow> ('l, 'r) Either \<Rightarrow> ('l, 'r) Either" where
  "either_copy_assign same dst src =
     (if same then dst
      else (case src of
              Left x \<Rightarrow> assignLeft Uninit x
            | Right y \<Rightarrow> assignRight Uninit y
            | Uninit \<Rightarrow> Uninit))"

definition either_move_construct ::
  "('l, 'r) Either \<Rightarrow> ('l, 'r) Either \<times> ('l, 'r) Either" where
  "either_move_construct src =
     (case src of
        Left x \<Rightarrow> (Left x, Uninit)
      | Right y \<Rightarrow> (Right y, Uninit)
      | Uninit \<Rightarrow> (Uninit, Uninit))"

text \<open>\<open>operator==\<close>: two empty values are not equal.\<close>

definition either_eq :: "('l, 'r) Either \<Rightarrow> ('l, 'r) Either \<Rightarrow> bool" where
  "either_eq a b =
     (case (a, b) of
        (Left x, Left y) \<Rightarrow> x = y
      | (Right x, Right y) \<Rightarrow> x = y
      | _ \<Rightarrow> False)"

subsection \<open>Async, Poll and cancellation\<close>

type_synonym 'a poll = "'a option Try"
type_synonym ('s, 'w, 'a) poller = "('s, 'w, 'a poll) member_fn"

abbreviation not_ready :: "'a poll" where
  "not_ready \<equiv> Value None"

definition makePollReady :: "'a \<Rightarrow> 'a poll" where
  "makePollReady v = Value (Some v)"

text \<open>The overload for \<open>Try<T>&&\<close>: an empty \<open>Try\<close> is not an exception, so its value is read.\<close>

definition makePollReadyTry :: "'a Try \<Rightarrow> 'a poll outcome" where
  "makePollReadyTry t =
     (if try_hasException t
      then (case try_exception t of Ret e \<Rightarrow> Ret (Exception e) | Throw e \<Rightarrow> Throw e | Abort \<Rightarrow> Abort)
      else (case try_value t of Ret v \<Rightarrow> Ret (Value (Some v)) | Throw e \<Rightarrow> Throw e | Abort \<Rightarrow> Abort))"

definition makeStreamEof :: "'a option poll" where
  "makeStreamEof = Value (Some None)"

definition makeStreamReady :: "'a \<Rightarrow> 'a option poll" where
  "makeStreamReady v = Value (Some (Some v))"

fun cancel_reason_str :: "cancel_reason \<Rightarrow> string" where
  "cancel_reason_str CancelUnknown = ''Future cancelled''"
| "cancel_reason_str ExecutorShutdown = ''Executor shutdown''"
| "cancel_reason_str IOObjectShutdown = ''IOObject shutdown''"
| "cancel_reason_str UserCancel = ''UserCancel shutdown''"

text \<open>The constructor stores \<open>CancelReason::Unknown\<close> whatever reason it is given.\<close>

definition FutureCancelled :: "cancel_reason \<Rightarrow> exn" where
  "FutureCancelled r = FutureCancelledException (cancel_reason_str r) CancelUnknown"

definition is_cancelled :: "exn \<Rightarrow> bool" where
  "is_cancelled e = (case e of FutureCancelledException _ _ \<Rightarrow> True | _ \<Rightarrow> False)"

subsection \<open>Laws of the value types\<close>

lemma throwIfFailed_Ret_iff [simp]: "throwIfFailed t = Ret () \<longleftrightarrow> (\<exists>v. t = Value v)"
  by (cases t) auto

lemma try_value_simps [simp, poll_simps]:
  "try_value (Value v) = Ret v"
  "try_value (Exception e) = Throw e"
  "try_value Nothing = Throw UsingUninitializedTry"
  by (simp_all add: try_value_def)

lemma try_exception_simps [simp, poll_simps]:
  "try_exception (Exception e) = Ret e"
  "try_exception (Value v) = Throw (TryException ''exception(): Try does not contain an exception'')"
  "try_exception Nothing = Throw (TryException ''exception(): Try does not contain an exception'')"
  by (simp_all add: try_exception_def)

lemma try_has_simps [simp, poll_simps]:
  "try_hasValue (Value v)" "\<not> try_hasValue (Exception e)" "\<not> try_hasValue Nothing"
  "try_hasException (Exception e)" "\<not> try_hasException (Value v)" "\<not> try_hasException Nothing"
  by (simp_all add: try_hasValue_def try_hasException_def)

lemma either_has_simps [simp, poll_simps]:
  "hasLeft (Left x)" "\<not> hasLeft (Right y)" "\<not> hasLeft Uninit"
  "hasRight (Right y)" "\<not> hasRight (Left x)" "\<not> hasRight Uninit"
  by (simp_all add: hasLeft_def hasRight_def)

lemma either_access_simps [simp, poll_simps]:
  "either_left (Left x) = Ret x" "either_right (Right y) = Ret y"
  "either_left (Right y) = Throw EitherEmptyException"
  "either_right (Left x) = Throw EitherEmptyException"
  "either_left Uninit = Throw EitherEmptyException"
  "either_right Uninit = Throw EitherEmptyException"
  by (simp_all add: either_left_def either_right_def)

lemma either_assign_access [simp]:
  "either_left (assignLeft e x) = Ret x" "either_right (assignRight e y) = Ret y"
  "hasLeft (assignLeft e x)" "hasRight (assignRight e y)"
  by (simp_all add: assignLeft_def assignRight_def)

lemma makePollReadyTry_simps [simp, poll_simps]:
  "makePollReadyTry (Value v) = Ret (Value (Some v))"
  "makePollReadyTry (Exception e) = Ret (Exception e)"
  "makePollReadyTry Nothing = Throw UsingUninitializedTry"
  by (simp_all add: makePollReadyTry_def)

lemma FutureCancelled_is_cancelled [simp]: "is_cancelled (FutureCancelled r)"
  by (simp add: FutureCancelled_def is_cancelled_def)

lemma FutureCancelled_is_std [simp]: "is_std (FutureCancelled r)"
  by (simp add: FutureCancelled_def)

end
