(* ===== verification/Futures.thy ===== *)
theory Futures
  imports Core_Types
begin

text \<open>
  The single futures and the combinators of \<open>Future.h\<close> and \<open>Future-inl.h\<close>.  A class
  with members becomes the state of the object; its \<open>poll\<close> becomes a function of the
  object and of the rest of the world.  A future that contains another one takes the
  contained \<open>poll\<close> as an argument (the C++ template parameter), and a callback is a
  function on the world, so that lambdas with side effects are covered.  The argument
  \<open>moved\<close> is what a moved-from value of the item type looks like.

  The lemmas: \<open>resolves\<close> is the specification of a poll loop under an arbitrary
  environment; each combinator is characterised by an equivalence on it.
\<close>

subsection \<open>Leaf futures\<close>

definition EmptyFuture_poll :: "(unit, 'w, 'a) poller" where
  "EmptyFuture_poll s w = Some (Ret (Value None), s, w)"

definition ErrFuture_poll :: "(exn, 'w, 'a) poller" where
  "ErrFuture_poll e w = Some (Ret (Exception e), EmptyWrapper, w)"

definition OkFuture_poll :: "('a \<Rightarrow> 'a) \<Rightarrow> ('a, 'w, 'a) poller" where
  "OkFuture_poll moved v w = Some (Ret (Value (Some v)), moved v, w)"

definition ResultFuture_poll :: "('a \<Rightarrow> 'a) \<Rightarrow> ('a Try, 'w, 'a) poller" where
  "ResultFuture_poll moved t w =
     (if try_hasException t
      then (case try_exception t of
              Ret e \<Rightarrow> Some (Ret (Exception e), t, w)
            | Throw e \<Rightarrow> Some (Throw e, t, w)
            | Abort \<Rightarrow> Some (Abort, t, w))
      else (case moveFromTry moved t of
              (Ret v, t') \<Rightarrow> Some (Ret (Value (Some v)), t', w)
            | (Throw e, t') \<Rightarrow> Some (Throw e, t', w)
            | (Abort, t') \<Rightarrow> Some (Abort, t', w)))"

definition LazyFuture_poll :: "(unit, 'w, 'a) callback \<Rightarrow> (unit, 'w, 'a) poller" where
  "LazyFuture_poll fn s w =
     try_callback (fn () w) s
       (\<lambda>e w'. Some (Ret (Exception e), s, w'))
       (\<lambda>v w'. Some (Ret (Value (Some v)), s, w'))"

text \<open>\<open>BoxedFuture\<close>: the \<open>unique_ptr\<close> is \<open>None\<close> after \<open>clear()\<close> or a move.\<close>

definition BoxedFuture_poll :: "('s, 'w, 'a) poller \<Rightarrow> ('s option, 'w, 'a) poller" where
  "BoxedFuture_poll p b w =
     (case b of
        None \<Rightarrow> Some (Throw MovedFutureException, None, w)
      | Some s \<Rightarrow> call (p s w) Some (\<lambda>r s' w'. Some (Ret r, Some s', w')))"

definition BoxedFuture_boxed :: "'s option \<Rightarrow> 's option \<times> 's option" where
  "BoxedFuture_boxed b = (b, None)"

definition FutureOrExceptionFuture_poll :: "('s, 'w, 'a) poller \<Rightarrow> ('s Try, 'w, 'a) poller" where
  "FutureOrExceptionFuture_poll p t w =
     (case t of
        Exception e \<Rightarrow> Some (Ret (Exception e), t, w)
      | Nothing \<Rightarrow> Some (Throw UsingUninitializedTry, t, w)
      | Value s \<Rightarrow>
          call (p s w) Value
            (\<lambda>r s' w'. case r of
                Exception e \<Rightarrow> Some (Ret r, Nothing, w')
              | Nothing \<Rightarrow> Some (Throw UsingUninitializedTry, Value s', w')
              | Value (Some v) \<Rightarrow> Some (Ret r, Nothing, w')
              | Value None \<Rightarrow> Some (Ret r, Value s', w')))"

definition FutureOrValueFuture_poll ::
  "('a \<Rightarrow> 'a) \<Rightarrow> ('s, 'w, 'a) poller \<Rightarrow> (('s, 'a) Either, 'w, 'a) poller" where
  "FutureOrValueFuture_poll moved p v w =
     (case v of
        Left s \<Rightarrow> call (p s w) Left (\<lambda>r s' w'. Some (Ret r, Left s', w'))
      | Right x \<Rightarrow> Some (Ret (makePollReady x), Right (moved x), w)
      | Uninit \<Rightarrow> Some (Throw InvalidPollStateException, Uninit, w))"

subsection \<open>ThenFuture\<close>

datatype chain_state = First | Second | Done

record ('fa, 'fb) chain =
  ch_state :: chain_state
  ch_v :: "('fa, 'fb) Either"

definition ThenFuture_init :: "'fa \<Rightarrow> ('fa, 'fb) chain" where
  "ThenFuture_init a = \<lparr>ch_state = First, ch_v = Left a\<rparr>"

text \<open>
  \<open>poll_second\<close>: the state is switched first; the handler runs and the second future is
  polled once inside the \<open>try\<close>.
\<close>

definition poll_second ::
  "('a Try, 'w, 'fb) callback \<Rightarrow> ('fb, 'w, 'b) poller \<Rightarrow> ('fa, 'fb) chain \<Rightarrow> 'a Try
   \<Rightarrow> 'w \<Rightarrow> (('fa, 'fb) chain, 'w, 'b poll) member_call" where
  "poll_second f pb c a_result w =
     (let c1 = c\<lparr>ch_state := Second\<rparr> in
      try_callback (f a_result w) c1
        (\<lambda>e w'. Some (Ret (Exception e), c1, w'))
        (\<lambda>fb w'.
           (case pb fb w' of
              None \<Rightarrow> None
            | Some (Ret r, fb', w'') \<Rightarrow> Some (Ret r, c1\<lparr>ch_v := Right fb'\<rparr>, w'')
            | Some (Throw e, fb', w'') \<Rightarrow>
                Some (if is_std e then Ret (Exception e) else Throw e,
                      c1\<lparr>ch_v := Right fb'\<rparr>, w'')
            | Some (Abort, fb', w'') \<Rightarrow> Some (Abort, c1\<lparr>ch_v := Right fb'\<rparr>, w''))))"

definition ThenFuture_poll ::
  "('fa, 'w, 'a) poller \<Rightarrow> ('a Try, 'w, 'fb) callback \<Rightarrow> ('fb, 'w, 'b) poller
   \<Rightarrow> (('fa, 'fb) chain, 'w, 'b) poller" where
  "ThenFuture_poll pa f pb c w =
     (case ch_state c of
        First \<Rightarrow>
          (case ch_v c of
             Left a \<Rightarrow>
               call (pa a w) (\<lambda>a'. c\<lparr>ch_v := Left a'\<rparr>)
                 (\<lambda>p a' w'.
                    let c' = c\<lparr>ch_v := Left a'\<rparr> in
                    (case p of
                       Value (Some v) \<Rightarrow> poll_second f pb c' (Value v) w'
                     | Value None \<Rightarrow> Some (Ret (Value None), c', w')
                     | Exception e \<Rightarrow> poll_second f pb c' (Exception e) w'
                     | Nothing \<Rightarrow>
                         Some (Throw (TryException
                           ''exception(): Try does not contain an exception''), c', w')))
           | _ \<Rightarrow> Some (Abort, c, w))
      | Second \<Rightarrow>
          (case ch_v c of
             Right b \<Rightarrow>
               call (pb b w) (\<lambda>b'. c\<lparr>ch_v := Right b'\<rparr>)
                 (\<lambda>r b' w'. Some (Ret r, c\<lparr>ch_v := Right b'\<rparr>, w'))
           | _ \<Rightarrow> Some (Abort, c, w))
      | Done \<Rightarrow> Some (Throw InvalidPollStateException, c, w))"

subsection \<open>The handlers wrapped around user callbacks\<close>

definition AndThenWrapper :: "('a, 'w, 'fb) callback \<Rightarrow> ('a Try, 'w, 'fb Try) callback" where
  "AndThenWrapper func v w =
     (case v of
        Value x \<Rightarrow>
          (case func x w of
             None \<Rightarrow> None
           | Some (Ret fb, w') \<Rightarrow> Some (Ret (Value fb), w')
           | Some (Throw e, w') \<Rightarrow> Some (Throw e, w')
           | Some (Abort, w') \<Rightarrow> Some (Abort, w'))
      | Exception e \<Rightarrow> Some (Ret (Exception e), w)
      | Nothing \<Rightarrow>
          Some (Throw (TryException ''exception(): Try does not contain an exception''), w))"

text \<open>\<open>AndThenWrapper2\<close> spreads a tuple over the arguments of the callback.\<close>

definition AndThenWrapper2 ::
  "('a1 \<Rightarrow> 'a2 \<Rightarrow> 'w \<Rightarrow> ('fb outcome \<times> 'w) option) \<Rightarrow> (('a1 \<times> 'a2) Try, 'w, 'fb Try) callback" where
  "AndThenWrapper2 func v w = AndThenWrapper (\<lambda>(x, y). func x y) v w"

definition ErrorWrapper :: "(exn, 'w, unit) callback \<Rightarrow> ('a Try, 'w, unit) callback" where
  "ErrorWrapper func v w =
     (case v of
        Exception e \<Rightarrow>
          (case func e w of
             None \<Rightarrow> None
           | Some (Ret _, w') \<Rightarrow> Some (Ret (), w')
           | Some (Throw e', w') \<Rightarrow> Some (Throw e', w')
           | Some (Abort, w') \<Rightarrow> Some (Abort, w'))
      | _ \<Rightarrow> Some (Ret (), w))"

definition OrElseWrapper :: "(unit, 'w, 'fb) callback \<Rightarrow> ('a Try, 'w, ('fb, 'a) Either) callback" where
  "OrElseWrapper func v w =
     (case v of
        Exception e \<Rightarrow>
          (case func () w of
             None \<Rightarrow> None
           | Some (Ret fb, w') \<Rightarrow> Some (Ret (Left fb), w')
           | Some (Throw e', w') \<Rightarrow> Some (Throw e', w')
           | Some (Abort, w') \<Rightarrow> Some (Abort, w'))
      | Value x \<Rightarrow> Some (Ret (Right x), w)
      | Nothing \<Rightarrow> Some (Throw UsingUninitializedTry, w))"

definition MapWrapper :: "('a, 'w, 'b) callback \<Rightarrow> ('a Try, 'w, 'b Try) callback" where
  "MapWrapper func v w =
     (case v of
        Exception e \<Rightarrow> Some (Ret (Exception e), w)
      | Value x \<Rightarrow>
          (case func x w of
             None \<Rightarrow> None
           | Some (Ret y, w') \<Rightarrow> Some (Ret (Value y), w')
           | Some (Throw e, w') \<Rightarrow> Some (Throw e, w')
           | Some (Abort, w') \<Rightarrow> Some (Abort, w'))
      | Nothing \<Rightarrow> Some (Throw UsingUninitializedTry, w))"

definition CastWrapper :: "('a \<Rightarrow> 'b) \<Rightarrow> ('a Try, 'w, 'b Try) callback" where
  "CastWrapper conv v w =
     (case v of
        Exception e \<Rightarrow> Some (Ret (Exception e), w)
      | Value x \<Rightarrow> Some (Ret (Value (conv x)), w)
      | Nothing \<Rightarrow> Some (Throw UsingUninitializedTry, w))"

text \<open>The member functions of \<open>FutureBase\<close> that build a \<open>ThenFuture\<close>.\<close>

definition andThen_poll ::
  "('fa, 'w, 'a) poller \<Rightarrow> ('a, 'w, 'fb) callback \<Rightarrow> ('fb, 'w, 'b) poller
   \<Rightarrow> (('fa, 'fb Try) chain, 'w, 'b) poller" where
  "andThen_poll pa func pb = ThenFuture_poll pa (AndThenWrapper func) (FutureOrExceptionFuture_poll pb)"

definition andThen2_poll ::
  "('fa, 'w, 'a1 \<times> 'a2) poller \<Rightarrow> ('a1 \<Rightarrow> 'a2 \<Rightarrow> 'w \<Rightarrow> ('fb outcome \<times> 'w) option)
   \<Rightarrow> ('fb, 'w, 'b) poller \<Rightarrow> (('fa, 'fb Try) chain, 'w, 'b) poller" where
  "andThen2_poll pa func pb = ThenFuture_poll pa (AndThenWrapper2 func) (FutureOrExceptionFuture_poll pb)"

definition error_poll ::
  "(unit \<Rightarrow> unit) \<Rightarrow> ('fa, 'w, 'a) poller \<Rightarrow> (exn, 'w, unit) callback
   \<Rightarrow> (('fa, unit) chain, 'w, unit) poller" where
  "error_poll moved pa func = ThenFuture_poll pa (ErrorWrapper func) (OkFuture_poll moved)"

definition orElse_poll ::
  "('a \<Rightarrow> 'a) \<Rightarrow> ('fa, 'w, 'a) poller \<Rightarrow> (unit, 'w, 'fb) callback \<Rightarrow> ('fb, 'w, 'a) poller
   \<Rightarrow> (('fa, ('fb, 'a) Either) chain, 'w, 'a) poller" where
  "orElse_poll moved pa func pb =
     ThenFuture_poll pa (OrElseWrapper func) (FutureOrValueFuture_poll moved pb)"

definition map_poll ::
  "('b \<Rightarrow> 'b) \<Rightarrow> ('fa, 'w, 'a) poller \<Rightarrow> ('a, 'w, 'b) callback
   \<Rightarrow> (('fa, 'b Try) chain, 'w, 'b) poller" where
  "map_poll moved pa func = ThenFuture_poll pa (MapWrapper func) (ResultFuture_poll moved)"

definition cast_poll ::
  "('b \<Rightarrow> 'b) \<Rightarrow> ('fa, 'w, 'a) poller \<Rightarrow> ('a \<Rightarrow> 'b) \<Rightarrow> (('fa, 'b Try) chain, 'w, 'b) poller" where
  "cast_poll moved pa conv = ThenFuture_poll pa (CastWrapper conv) (ResultFuture_poll moved)"

subsection \<open>JoinFuture\<close>

record ('fa, 'a, 'fb, 'b) join =
  jn_fa :: "('fa, 'a) Either"
  jn_fb :: "('fb, 'b) Either"

definition JoinFuture_init :: "'fa \<Rightarrow> 'fb \<Rightarrow> ('fa, 'a, 'fb, 'b) join" where
  "JoinFuture_init a b = \<lparr>jn_fa = Left a, jn_fb = Left b\<rparr>"

text \<open>The common tail: both sides must be \<open>Right\<close>, the pair is moved out.\<close>

definition join_finish ::
  "('a \<Rightarrow> 'a) \<Rightarrow> ('b \<Rightarrow> 'b) \<Rightarrow> ('fa, 'a, 'fb, 'b) join \<Rightarrow> 'w
   \<Rightarrow> (('fa, 'a, 'fb, 'b) join, 'w, ('a \<times> 'b) poll) member_call" where
  "join_finish ma mb j w =
     (case (jn_fa j, jn_fb j) of
        (Right x, Right y) \<Rightarrow>
          Some (Ret (makePollReady (x, y)), \<lparr>jn_fa = Right (ma x), jn_fb = Right (mb y)\<rparr>, w)
      | _ \<Rightarrow> Some (Abort, j, w))"

definition join_second ::
  "('a \<Rightarrow> 'a) \<Rightarrow> ('b \<Rightarrow> 'b) \<Rightarrow> ('fb, 'w, 'b) poller \<Rightarrow> ('fa, 'a, 'fb, 'b) join \<Rightarrow> 'w
   \<Rightarrow> (('fa, 'a, 'fb, 'b) join, 'w, ('a \<times> 'b) poll) member_call" where
  "join_second ma mb pb j w =
     (case jn_fb j of
        Left b \<Rightarrow>
          call (pb b w) (\<lambda>b'. j\<lparr>jn_fb := Left b'\<rparr>)
            (\<lambda>r b' w'.
               (case r of
                  Exception e \<Rightarrow> Some (Ret (Exception e), j\<lparr>jn_fb := Left b'\<rparr>, w')
                | Nothing \<Rightarrow> Some (Throw UsingUninitializedTry, j\<lparr>jn_fb := Left b'\<rparr>, w')
                | Value None \<Rightarrow> Some (Ret (Value None), j\<lparr>jn_fb := Left b'\<rparr>, w')
                | Value (Some y) \<Rightarrow> join_finish ma mb (j\<lparr>jn_fb := Right y\<rparr>) w'))
      | _ \<Rightarrow> join_finish ma mb j w)"

definition JoinFuture_poll ::
  "('a \<Rightarrow> 'a) \<Rightarrow> ('b \<Rightarrow> 'b) \<Rightarrow> ('fa, 'w, 'a) poller \<Rightarrow> ('fb, 'w, 'b) poller
   \<Rightarrow> (('fa, 'a, 'fb, 'b) join, 'w, 'a \<times> 'b) poller" where
  "JoinFuture_poll ma mb pa pb j w =
     (case jn_fa j of
        Left a \<Rightarrow>
          call (pa a w) (\<lambda>a'. j\<lparr>jn_fa := Left a'\<rparr>)
            (\<lambda>r a' w'.
               (case r of
                  Exception e \<Rightarrow> Some (Ret (Exception e), j\<lparr>jn_fa := Left a'\<rparr>, w')
                | Nothing \<Rightarrow> Some (Throw UsingUninitializedTry, j\<lparr>jn_fa := Left a'\<rparr>, w')
                | Value None \<Rightarrow> Some (Ret (Value None), j\<lparr>jn_fa := Left a'\<rparr>, w')
                | Value (Some x) \<Rightarrow> join_second ma mb pb (j\<lparr>jn_fa := Right x\<rparr>) w'))
      | _ \<Rightarrow> join_second ma mb pb j w)"

subsection \<open>Driving a future to completion\<close>

text \<open>
  \<open>final x\<close> is what the driver of a poll loop ends with after one poll: a pending result
  (\<open>Value None\<close>) makes it go on, everything else ends the loop.  \<open>Ret t\<close> is a normal
  completion with the \<open>Try\<close> value \<open>t\<close>; \<open>Throw\<close> and \<open>Abort\<close> are escapes.
\<close>

fun final :: "'a poll outcome \<Rightarrow> 'a Try outcome option" where
  "final (Ret (Value None)) = None"
| "final (Ret (Value (Some v))) = Some (Ret (Value v))"
| "final (Ret (Exception e)) = Some (Ret (Exception e))"
| "final (Ret Nothing) = Some (Ret Nothing)"
| "final (Throw e) = Some (Throw e)"
| "final Abort = Some Abort"

text \<open>
  \<open>resolves p env s w r s' w'\<close>: polling the future \<open>s\<close> from world \<open>w\<close> again and again,
  with a step of the environment between two polls, ends with \<open>r\<close>.
\<close>

inductive resolves ::
  "('s, 'w, 'a) poller \<Rightarrow> ('w \<Rightarrow> 'w \<Rightarrow> bool) \<Rightarrow> 's \<Rightarrow> 'w \<Rightarrow> 'a Try outcome \<Rightarrow> 's \<Rightarrow> 'w \<Rightarrow> bool"
  for p :: "('s, 'w, 'a) poller" and env :: "'w \<Rightarrow> 'w \<Rightarrow> bool" where
  stop: "p s w = Some (x, s', w') \<Longrightarrow> final x = Some r \<Longrightarrow> resolves p env s w r s' w'"
| again: "p s w = Some (x, s1, w1) \<Longrightarrow> final x = None \<Longrightarrow> env w1 w2
    \<Longrightarrow> resolves p env s1 w2 r s' w' \<Longrightarrow> resolves p env s w r s' w'"

inductive_cases resolvesE: "resolves p env s w r s' w'"

definition yields ::
  "('s, 'w, 'a) poller \<Rightarrow> ('w \<Rightarrow> 'w \<Rightarrow> bool) \<Rightarrow> 's \<Rightarrow> 'w \<Rightarrow> 'a Try outcome \<Rightarrow> 'w \<Rightarrow> bool" where
  "yields p env s w r w' \<longleftrightarrow> (\<exists>s'. resolves p env s w r s' w')"

text \<open>The rest of a poll loop whose first poll has already given \<open>m\<close>.\<close>

definition completes ::
  "('s, 'w, 'a) poller \<Rightarrow> ('w \<Rightarrow> 'w \<Rightarrow> bool) \<Rightarrow> ('s, 'w, 'a poll) member_call
   \<Rightarrow> 'a Try outcome \<Rightarrow> 'w \<Rightarrow> bool" where
  "completes p env m r w' =
     (case m of
        None \<Rightarrow> False
      | Some (x, s, w1) \<Rightarrow>
          (case final x of
             Some r' \<Rightarrow> r = r' \<and> w' = w1
           | None \<Rightarrow> (\<exists>w2. env w1 w2 \<and> yields p env s w2 r w')))"

text \<open>A first poll inside \<open>try ... catch (const std::exception&)\<close>.\<close>

definition catch_std :: "('s, 'w, 'a poll) member_call \<Rightarrow> ('s, 'w, 'a poll) member_call" where
  "catch_std m =
     (case m of
        Some (Throw e, s, w) \<Rightarrow> Some (if is_std e then Ret (Exception e) else Throw e, s, w)
      | _ \<Rightarrow> m)"

definition starts ::
  "('s, 'w, 'a) poller \<Rightarrow> ('w \<Rightarrow> 'w \<Rightarrow> bool) \<Rightarrow> 's \<Rightarrow> 'w \<Rightarrow> 'a Try outcome \<Rightarrow> 'w \<Rightarrow> bool" where
  "starts p env s w r w' = completes p env (catch_std (p s w)) r w'"

lemma final_None_iff [simp]: "final x = None \<longleftrightarrow> x = Ret (Value None)"
  by (cases x rule: final.cases) simp_all

lemma completes_simps [simp]:
  "completes p env None r w' \<longleftrightarrow> False"
  "completes p env (Some (Ret (Value None), s, w1)) r w' \<longleftrightarrow>
     (\<exists>w2. env w1 w2 \<and> yields p env s w2 r w')"
  "completes p env (Some (Ret (Value (Some v)), s, w1)) r w' \<longleftrightarrow> r = Ret (Value v) \<and> w' = w1"
  "completes p env (Some (Ret (Exception e), s, w1)) r w' \<longleftrightarrow> r = Ret (Exception e) \<and> w' = w1"
  "completes p env (Some (Ret Nothing, s, w1)) r w' \<longleftrightarrow> r = Ret Nothing \<and> w' = w1"
  "completes p env (Some (Throw e, s, w1)) r w' \<longleftrightarrow> r = Throw e \<and> w' = w1"
  "completes p env (Some (Abort, s, w1)) r w' \<longleftrightarrow> r = Abort \<and> w' = w1"
  by (simp_all add: completes_def)

lemma catch_std_simps [simp]:
  "catch_std None = None"
  "catch_std (Some (Ret x, s, w)) = Some (Ret x, s, w)"
  "catch_std (Some (Throw e, s, w)) =
     Some (if is_std e then Ret (Exception e) else Throw e, s, w)"
  "catch_std (Some (Abort, s, w)) = Some (Abort, s, w)"
  by (simp_all add: catch_std_def)

lemma resolves_pending:
  "p s w = Some (Ret (Value None), s1, w1) \<Longrightarrow> env w1 w2 \<Longrightarrow> resolves p env s1 w2 r s' w'
   \<Longrightarrow> resolves p env s w r s' w'"
  by (rule resolves.again) simp_all

lemma yields_unfold: "yields p env s w r w' = completes p env (p s w) r w'"
proof
  assume "yields p env s w r w'"
  then obtain s' where "resolves p env s w r s' w'"
    by (auto simp: yields_def)
  then show "completes p env (p s w) r w'"
    by (cases rule: resolves.cases) (auto simp: completes_def yields_def)
next
  assume *: "completes p env (p s w) r w'"
  then obtain x s1 w1 where p: "p s w = Some (x, s1, w1)"
    by (auto simp: completes_def split: option.splits)
  show "yields p env s w r w'"
  proof (cases "final x")
    case None
    then show ?thesis
      using * p by (auto simp: yields_def intro: resolves_pending)
  next
    case (Some y)
    then show ?thesis
      using * p by (auto simp: yields_def completes_def intro: resolves.stop)
  qed
qed

fun unfinal :: "'a Try outcome \<Rightarrow> 'a poll outcome" where
  "unfinal (Ret (Value v)) = Ret (Value (Some v))"
| "unfinal (Ret (Exception e)) = Ret (Exception e)"
| "unfinal (Ret Nothing) = Ret Nothing"
| "unfinal (Throw e) = Throw e"
| "unfinal Abort = Abort"

lemma final_unfinal [simp]: "final (unfinal y) = Some y"
  by (cases y rule: unfinal.cases) simp_all

lemma unfinal_final: "final x = Some y \<Longrightarrow> unfinal y = x"
  by (cases x rule: final.cases) auto

text \<open>The same with the final state of the object.\<close>

definition settles ::
  "('s, 'w, 'a) poller \<Rightarrow> ('w \<Rightarrow> 'w \<Rightarrow> bool) \<Rightarrow> ('s, 'w, 'a poll) member_call
   \<Rightarrow> 'a Try outcome \<Rightarrow> 's \<Rightarrow> 'w \<Rightarrow> bool" where
  "settles p env m r s' w' =
     (case m of
        None \<Rightarrow> False
      | Some (x, s, w1) \<Rightarrow>
          (case final x of
             Some r' \<Rightarrow> r = r' \<and> s' = s \<and> w' = w1
           | None \<Rightarrow> (\<exists>w2. env w1 w2 \<and> resolves p env s w2 r s' w')))"

lemma resolves_unfold: "resolves p env s w r s' w' = settles p env (p s w) r s' w'"
proof
  assume "resolves p env s w r s' w'"
  then show "settles p env (p s w) r s' w'"
    by (cases rule: resolves.cases) (auto simp: settles_def)
next
  assume *: "settles p env (p s w) r s' w'"
  then obtain x s1 w1 where p: "p s w = Some (x, s1, w1)"
    by (auto simp: settles_def split: option.splits)
  show "resolves p env s w r s' w'"
  proof (cases "final x")
    case None
    then show ?thesis
      using * p by (auto simp: settles_def intro: resolves_pending)
  next
    case (Some y)
    then show ?thesis
      using * p by (auto simp: settles_def intro: resolves.stop)
  qed
qed

lemma completes_settles: "completes p env m r w' \<longleftrightarrow> (\<exists>s'. settles p env m r s' w')"
  by (auto simp: completes_def settles_def yields_def split: option.split)

lemma settles_simps [simp]:
  "settles p env None r s' w' \<longleftrightarrow> False"
  "settles p env (Some (unfinal r0, s, w1)) r s' w' \<longleftrightarrow> r = r0 \<and> s' = s \<and> w' = w1"
  by (simp_all add: settles_def)

text \<open>
  The rule behind every combinator: while the inner future is pending the outer one is
  pending around it, and on the final poll of the inner one the outer poll goes on with
  \<open>k\<close> in the same call.
\<close>

lemma resolves_seq:
  assumes step: "\<And>a w. p' (emb a) w =
      (case p a w of
         None \<Rightarrow> None
       | Some (x, a1, w1) \<Rightarrow>
           (case final x of
              None \<Rightarrow> Some (Ret (Value None), emb a1, w1)
            | Some y \<Rightarrow> k y a1 w1))"
  shows "resolves p' env (emb a) w r s' w' \<longleftrightarrow>
     (\<exists>y a1 w1. resolves p env a w y a1 w1 \<and> settles p' env (k y a1 w1) r s' w')"
    (is "?L \<longleftrightarrow> ?R")
proof
  assume ?L
  then show ?R
  proof (induction "emb a" w r s' w' arbitrary: a rule: resolves.induct)
    case (stop w x s' w' r)
    then show ?case
      by (fastforce simp: step settles_def split: option.splits intro: resolves.stop)
  next
    case (again w x s1 w1 w2 r s' w')
    then obtain y a1 v1 where p: "p a w = Some (y, a1, v1)"
      by (auto simp: step split: option.splits)
    show ?case
    proof (cases "final y")
      case None
      then have "s1 = emb a1" "w1 = v1"
        using again.hyps(1,2) p by (auto simp: step)
      then show ?thesis
        using again.hyps(3,5) None p by (blast intro: resolves.again)
    next
      case (Some z)
      then have "k z a1 v1 = Some (x, s1, w1)"
        using again.hyps(1) p by (simp add: step)
      then have "settles p' env (k z a1 v1) r s' w'"
        using again.hyps(2-4) by (auto simp: settles_def)
      then show ?thesis
        using p Some by (blast intro: resolves.stop)
    qed
  qed
next
  assume ?R
  then obtain y a1 w1 where "resolves p env a w y a1 w1" "settles p' env (k y a1 w1) r s' w'"
    by blast
  then show ?L
  proof (induction rule: resolves.induct)
    case (stop s w x s' w' y)
    then show ?case
      by (simp add: resolves_unfold [of p' env "emb s"] step)
  next
    case (again s w x s1 w1 w2 y s' w')
    then show ?case
      by (auto simp: resolves_unfold [of p' env "emb s"] step settles_def)
  qed
qed

lemma yields_seq:
  assumes "\<And>a w. p' (emb a) w =
      (case p a w of
         None \<Rightarrow> None
       | Some (x, a1, w1) \<Rightarrow>
           (case final x of
              None \<Rightarrow> Some (Ret (Value None), emb a1, w1)
            | Some y \<Rightarrow> k y a1 w1))"
  shows "yields p' env (emb a) w r w' \<longleftrightarrow>
     (\<exists>y a1 w1. resolves p env a w y a1 w1 \<and> completes p' env (k y a1 w1) r w')"
proof -
  have "resolves p' env (emb a) w r s' w' \<longleftrightarrow>
     (\<exists>y a1 w1. resolves p env a w y a1 w1 \<and> settles p' env (k y a1 w1) r s' w')" for s'
    using assms by (rule resolves_seq)
  then show ?thesis
    unfolding yields_def completes_settles by blast
qed

text \<open>A future that only wraps another one resolves exactly as it.\<close>

lemma yields_embed:
  assumes step: "\<And>s w. p' (emb s) w =
      (case p s w of None \<Rightarrow> None | Some (x, s1, w1) \<Rightarrow> Some (x, fin x s1, w1))"
    and fin: "\<And>s. fin (Ret (Value None)) s = emb s"
  shows "yields p' env (emb s) w r w' \<longleftrightarrow> yields p env s w r w'"
proof -
  have "yields p' env (emb s) w r w' \<longleftrightarrow>
     (\<exists>y a1 w1. resolves p env s w y a1 w1 \<and>
        completes p' env (Some (unfinal y, fin (unfinal y) a1, w1)) r w')"
    by (rule yields_seq)
      (auto simp: step fin unfinal_final split: option.split)
  then show ?thesis
    by (auto simp: yields_def completes_def)
qed

definition never_empty :: "('s, 'w, 'a) poller \<Rightarrow> bool" where
  "never_empty p \<longleftrightarrow> (\<forall>s w s' w'. p s w \<noteq> Some (Ret Nothing, s', w'))"

lemma resolves_never_empty:
  assumes "resolves p env s w r s' w'" "never_empty p"
  shows "r \<noteq> Ret Nothing"
  using assms
proof (induction rule: resolves.induct)
  case (stop s w x s' w' r)
  then show ?case
    by (cases x rule: final.cases) (auto simp: never_empty_def)
qed simp

lemma yields_never_empty: "yields p env s w r w' \<Longrightarrow> never_empty p \<Longrightarrow> r \<noteq> Ret Nothing"
  by (auto simp: yields_def dest: resolves_never_empty)

lemma ex_yields_cong:
  assumes "never_empty p" "\<And>x w1. x \<noteq> Ret Nothing \<Longrightarrow> P x w1 = Q x w1"
  shows "(\<exists>x w1. yields p env s w x w1 \<and> P x w1) \<longleftrightarrow> (\<exists>x w1. yields p env s w x w1 \<and> Q x w1)"
proof -
  have "yields p env s w x w1 \<and> P x w1 \<longleftrightarrow> yields p env s w x w1 \<and> Q x w1" for x w1
    using assms(2) yields_never_empty [OF _ assms(1), of env s w x w1] by blast
  then show ?thesis by simp
qed

lemma yields_BoxedFuture:
  "yields (BoxedFuture_poll p) env (Some s) w r w' \<longleftrightarrow> yields p env s w r w'"
  by (rule yields_embed [where fin = "\<lambda>_. Some"])
    (auto simp: BoxedFuture_poll_def call_def split: option.split outcome.split)

lemma yields_FutureOrException:
  assumes "never_empty p"
  shows "yields (FutureOrExceptionFuture_poll p) env (Value s) w r w' \<longleftrightarrow> yields p env s w r w'"
  by (rule yields_embed
        [where fin = "\<lambda>x s. case x of Ret (Value None) \<Rightarrow> Value s | Ret _ \<Rightarrow> Nothing | _ \<Rightarrow> Value s"])
    (use assms in \<open>auto simp: FutureOrExceptionFuture_poll_def call_def never_empty_def
       split: option.split outcome.split Try.split\<close>)

lemma starts_FutureOrException:
  assumes "never_empty p"
  shows "starts (FutureOrExceptionFuture_poll p) env (Value s) w r w' \<longleftrightarrow> starts p env s w r w'"
  using assms
  by (cases "p s w" rule: member_call_cases)
    (auto simp: starts_def FutureOrExceptionFuture_poll_def never_empty_def
        yields_FutureOrException [OF assms] split: option.split Try.split)

lemma starts_FutureOrException_exn [simp]:
  "starts (FutureOrExceptionFuture_poll p) env (Exception e) w r w' \<longleftrightarrow>
     r = Ret (Exception e) \<and> w' = w"
  by (simp add: starts_def FutureOrExceptionFuture_poll_def)

lemma yields_OkFuture [simp]:
  "yields (OkFuture_poll moved) env v w r w' \<longleftrightarrow> r = Ret (Value v) \<and> w' = w"
  by (simp add: yields_unfold OkFuture_poll_def)

lemma never_empty_OkFuture [simp]: "never_empty (OkFuture_poll moved)"
  by (simp add: never_empty_def OkFuture_poll_def)

lemma starts_OkFuture [simp]:
  "starts (OkFuture_poll moved) env v w r w' \<longleftrightarrow> r = Ret (Value v) \<and> w' = w"
  by (simp add: starts_def OkFuture_poll_def)

lemma starts_FutureOrValue:
  "starts (FutureOrValueFuture_poll moved p) env (Right v) w r w' \<longleftrightarrow>
     r = Ret (Value v) \<and> w' = w"
  "starts (FutureOrValueFuture_poll moved p) env (Left s) w r w' \<longleftrightarrow> starts p env s w r w'"
proof -
  have "yields (FutureOrValueFuture_poll moved p) env (Left s) w r w' \<longleftrightarrow> yields p env s w r w'"
    for s w
    by (rule yields_embed [where fin = "\<lambda>_. Left"])
      (auto simp: FutureOrValueFuture_poll_def call_def split: option.split outcome.split)
  then show "starts (FutureOrValueFuture_poll moved p) env (Left s) w r w' \<longleftrightarrow>
      starts p env s w r w'"
    by (cases "p s w" rule: member_call_cases)
      (simp_all add: starts_def FutureOrValueFuture_poll_def completes_def split: option.split)
qed (simp add: starts_def FutureOrValueFuture_poll_def makePollReady_def)

lemma starts_ResultFuture [simp]:
  "starts (ResultFuture_poll moved) env (Value v) w r w' \<longleftrightarrow> r = Ret (Value v) \<and> w' = w"
  "starts (ResultFuture_poll moved) env (Exception e) w r w' \<longleftrightarrow> r = Ret (Exception e) \<and> w' = w"
  by (simp_all add: starts_def ResultFuture_poll_def moveFromTry_def)

subsection \<open>What ThenFuture computes\<close>

definition handler_spec ::
  "('a Try, 'w, 'fb) callback \<Rightarrow> ('fb, 'w, 'b) poller \<Rightarrow> ('w \<Rightarrow> 'w \<Rightarrow> bool)
   \<Rightarrow> 'a Try \<Rightarrow> 'w \<Rightarrow> 'b Try outcome \<Rightarrow> 'w \<Rightarrow> bool" where
  "handler_spec f pb env t w r w' =
     (case f t w of
        None \<Rightarrow> False
      | Some (Ret b, w1) \<Rightarrow> starts pb env b w1 r w'
      | Some (Throw e, w1) \<Rightarrow> r = (if is_std e then Ret (Exception e) else Throw e) \<and> w' = w1
      | Some (Abort, w1) \<Rightarrow> r = Abort \<and> w' = w1)"

text \<open>
  The specification of a chain: run the first future, hand its \<open>Try\<close> to the handler,
  go on with the future the handler returned.  A standard exception from the handler, or
  from the first poll of the returned future, is the result of the chain.
\<close>

definition then_spec ::
  "('a Try, 'w, 'fb) callback \<Rightarrow> ('fb, 'w, 'b) poller \<Rightarrow> ('w \<Rightarrow> 'w \<Rightarrow> bool)
   \<Rightarrow> 'a Try outcome \<Rightarrow> 'w \<Rightarrow> 'b Try outcome \<Rightarrow> 'w \<Rightarrow> bool" where
  "then_spec f pb env x w r w' =
     (case x of
        Ret t \<Rightarrow>
          (if t = Nothing
           then r = Throw (TryException ''exception(): Try does not contain an exception'')
                \<and> w' = w
           else handler_spec f pb env t w r w')
      | Throw e \<Rightarrow> r = Throw e \<and> w' = w
      | Abort \<Rightarrow> r = Abort \<and> w' = w)"

lemma yields_Then_second:
  "yields (ThenFuture_poll pa f pb) env \<lparr>ch_state = Second, ch_v = Right b\<rparr> w r w' \<longleftrightarrow>
   yields pb env b w r w'"
  by (rule yields_embed [where fin = "\<lambda>_ b. \<lparr>ch_state = Second, ch_v = Right b\<rparr>"])
    (auto simp: ThenFuture_poll_def call_def split: option.split outcome.split)

lemma completes_poll_second:
  assumes "ch_v c = Left a"
  shows "completes (ThenFuture_poll pa f pb) env (poll_second f pb c t w) r w' \<longleftrightarrow>
    handler_spec f pb env t w r w'"
proof (cases "f t w")
  case None
  then show ?thesis by (simp add: poll_second_def handler_spec_def)
next
  case (Some q)
  obtain y w1 where q: "q = (y, w1)" by (cases q)
  show ?thesis
  proof (cases y)
    case (Ret b)
    have c1: "c\<lparr>ch_state := Second, ch_v := Right b'\<rparr> = \<lparr>ch_state = Second, ch_v = Right b'\<rparr>" for b'
      by simp
    show ?thesis
      using Some q Ret
      by (cases "pb b w1" rule: member_call_cases)
        (simp_all add: poll_second_def handler_spec_def starts_def completes_def c1 yields_Then_second
          split: option.split)
  qed (use Some q in \<open>simp_all add: poll_second_def handler_spec_def\<close>)
qed

lemma yields_Then:
  "yields (ThenFuture_poll pa f pb) env (ThenFuture_init a) w r w' \<longleftrightarrow>
     (\<exists>x w1. yields pa env a w x w1 \<and> then_spec f pb env x w1 r w')"
proof -
  let ?k = "\<lambda>y a1 w1. case y of
      Ret (Value v) \<Rightarrow> poll_second f pb (ThenFuture_init a1) (Value v) w1
    | Ret (Exception e) \<Rightarrow> poll_second f pb (ThenFuture_init a1) (Exception e) w1
    | Ret Nothing \<Rightarrow> Some (Throw (TryException
        ''exception(): Try does not contain an exception''), ThenFuture_init a1, w1)
    | Throw e \<Rightarrow> Some (Throw e, ThenFuture_init a1, w1)
    | Abort \<Rightarrow> Some (Abort, ThenFuture_init a1, w1)"
  have "yields (ThenFuture_poll pa f pb) env (ThenFuture_init a) w r w' \<longleftrightarrow>
     (\<exists>y a1 w1. resolves pa env a w y a1 w1 \<and>
        completes (ThenFuture_poll pa f pb) env (?k y a1 w1) r w')"
    by (rule yields_seq)
      (auto simp: ThenFuture_poll_def ThenFuture_init_def call_def Let_def
        split: option.split outcome.split Try.split)
  moreover have "completes (ThenFuture_poll pa f pb) env (?k y a1 w1) r w' \<longleftrightarrow>
      then_spec f pb env y w1 r w'" for y a1 w1
    by (cases y rule: unfinal.cases)
      (simp_all add: then_spec_def completes_poll_second [where a = a1] ThenFuture_init_def)
  ultimately show ?thesis
    by (auto simp: yields_def)
qed

text \<open>The first poll of a chain, when it is itself run under a handler.\<close>

lemma catch_std_poll_second [simp]:
  "catch_std (poll_second f pb c t w) = poll_second f pb c t w"
proof (cases "f t w")
  case (Some q)
  obtain y w1 where q: "q = (y, w1)" by (cases q)
  show ?thesis
  proof (cases y)
    case (Ret b)
    then show ?thesis
      using Some q
      by (cases "pb b w1" rule: member_call_cases) (simp_all add: poll_second_def)
  qed (use Some q in \<open>simp_all add: poll_second_def Let_def\<close>)
qed (simp add: poll_second_def)

lemma then_spec_AndThen_exn:
  "then_spec (AndThenWrapper f) (FutureOrExceptionFuture_poll pb) env (Ret (Exception e)) w r w'
   \<longleftrightarrow> r = Ret (Exception e) \<and> w' = w"
  by (simp add: then_spec_def handler_spec_def AndThenWrapper_def)

lemma yields_andThen:
  "yields (andThen_poll pa f pb) env (ThenFuture_init a) w r w' \<longleftrightarrow>
     (\<exists>x w1. yields pa env a w x w1 \<and>
        then_spec (AndThenWrapper f) (FutureOrExceptionFuture_poll pb) env x w1 r w')"
  unfolding andThen_poll_def by (rule yields_Then)

lemma starts_andThen:
  assumes "never_empty pa"
  shows "starts (andThen_poll pa f pb) env (ThenFuture_init a) w r w' \<longleftrightarrow>
     (\<exists>x w1. starts pa env a w x w1 \<and>
        then_spec (AndThenWrapper f) (FutureOrExceptionFuture_poll pb) env x w1 r w')"
proof (cases "pa a w" rule: member_call_cases)
  case (Returns t a1 w1)
  have ne: "t \<noteq> Nothing"
    using assms Returns by (auto simp: never_empty_def)
  show ?thesis
  proof (cases "t = Value None")
    case True
    then have "starts (andThen_poll pa f pb) env (ThenFuture_init a) w r w' \<longleftrightarrow>
        (\<exists>w2. env w1 w2 \<and> yields (andThen_poll pa f pb) env (ThenFuture_init a1) w2 r w')"
      using Returns by (simp add: starts_def andThen_poll_def ThenFuture_poll_def ThenFuture_init_def)
    then show ?thesis
      using Returns True by (auto simp: starts_def yields_andThen)
  next
    case False
    then show ?thesis
      using Returns ne
      by (cases t)
        (auto simp: starts_def andThen_poll_def ThenFuture_poll_def ThenFuture_init_def Let_def
          completes_poll_second [where a = a1] then_spec_def)
  qed
next
  case (Throws e a1 w1)
  then show ?thesis
    by (auto simp: starts_def andThen_poll_def ThenFuture_poll_def ThenFuture_init_def
        then_spec_def handler_spec_def AndThenWrapper_def
        FutureOrExceptionFuture_poll_def)
qed (auto simp: starts_def andThen_poll_def ThenFuture_poll_def ThenFuture_init_def then_spec_def)

lemma never_empty_FutureOrException [simp]: "never_empty (FutureOrExceptionFuture_poll p)"
  by (auto simp: never_empty_def FutureOrExceptionFuture_poll_def call_def
      split: Try.splits option.splits outcome.splits)

lemma never_empty_Then:
  assumes "never_empty pb"
  shows "never_empty (ThenFuture_poll pa f pb)"
  using assms
  by (auto simp: never_empty_def ThenFuture_poll_def poll_second_def call_def try_callback_def
      Let_def split: chain_state.splits Either.splits Try.splits option.splits outcome.splits
        if_splits)

lemma never_empty_andThen [simp]: "never_empty (andThen_poll pa f pb)"
  unfolding andThen_poll_def by (rule never_empty_Then) simp

text \<open>The two bracketings of a three-stage chain have the same continuation.\<close>

definition nest_callback :: "('a, 'w, 'fb) callback \<Rightarrow> ('a, 'w, ('fb, 'fc) chain) callback" where
  "nest_callback f x w =
     (case f x w of
        None \<Rightarrow> None
      | Some (Ret b, w') \<Rightarrow> Some (Ret (ThenFuture_init b), w')
      | Some (Throw e, w') \<Rightarrow> Some (Throw e, w')
      | Some (Abort, w') \<Rightarrow> Some (Abort, w'))"

lemma then_spec_nest:
  assumes "never_empty pb"
  shows "(\<exists>x w1. then_spec (AndThenWrapper f) (FutureOrExceptionFuture_poll pb) env y w0 x w1 \<and>
             then_spec (AndThenWrapper g) (FutureOrExceptionFuture_poll pc) env x w1 r w') \<longleftrightarrow>
         then_spec (AndThenWrapper (nest_callback f))
           (FutureOrExceptionFuture_poll (andThen_poll pb g pc)) env y w0 r w'"
proof (cases y rule: unfinal.cases)
  case (1 v)
  show ?thesis
  proof (cases "f v w0")
    case None
    then show ?thesis
      using 1 by (simp add: then_spec_def handler_spec_def AndThenWrapper_def nest_callback_def)
  next
    case (Some q)
    obtain z w1 where q: "q = (z, w1)" by (cases q)
    show ?thesis
    proof (cases z)
      case (Ret b)
      then show ?thesis
        using 1 Some q assms
        by (simp add: then_spec_def [of "AndThenWrapper f"]
            then_spec_def [of "AndThenWrapper (nest_callback f)"] handler_spec_def
            AndThenWrapper_def [of f] AndThenWrapper_def [of "nest_callback f"]
            nest_callback_def starts_FutureOrException starts_andThen)
    qed (use 1 Some q in \<open>auto simp: then_spec_def handler_spec_def AndThenWrapper_def
          nest_callback_def\<close>)
  qed
qed (auto simp: then_spec_def handler_spec_def AndThenWrapper_def)

text \<open>
  C1 --- \<open>andThen\<close> is associative.  For every first future, callbacks \<open>f\<close> and \<open>g\<close>
  (with side effects, throwing or diverging), environment and outcome, the chain
  \<open>(m.andThen(f)).andThen(g)\<close> can end with \<open>r\<close> in world \<open>w'\<close> exactly when
  \<open>m.andThen(x => f(x).andThen(g))\<close> can; the only thing asked is that the futures
  returned by \<open>f\<close> never return an empty \<open>Try\<close>.
\<close>

theorem andThen_assoc:
  assumes "never_empty pb"
  shows "yields (andThen_poll (andThen_poll pa f pb) g pc) env
           (ThenFuture_init (ThenFuture_init a)) w r w' \<longleftrightarrow>
         yields (andThen_poll pa (nest_callback f) (andThen_poll pb g pc)) env
           (ThenFuture_init a) w r w'"
  by (simp add: yields_andThen then_spec_nest [OF assms, symmetric]) blast

theorem andThen_assoc_witness:
  "never_empty (OkFuture_poll id :: (nat, nat, nat) poller) \<and>
   yields (andThen_poll (andThen_poll (OkFuture_poll id) (\<lambda>x w. Some (Ret (x + 1), w + 1))
       (OkFuture_poll id)) (\<lambda>x w. Some (Ret (x * 2), w + 10)) (OkFuture_poll id))
     (=) (ThenFuture_init (ThenFuture_init (3 :: nat))) (0 :: nat) (Ret (Value 8)) 11"
proof
  show ne: "never_empty (OkFuture_poll id :: (nat, nat, nat) poller)"
    by simp
  show "yields (andThen_poll (andThen_poll (OkFuture_poll id) (\<lambda>x w. Some (Ret (x + 1), w + 1))
       (OkFuture_poll id)) (\<lambda>x w. Some (Ret (x * 2), w + 10)) (OkFuture_poll id))
     (=) (ThenFuture_init (ThenFuture_init (3 :: nat))) (0 :: nat) (Ret (Value 8)) 11"
    unfolding andThen_assoc [OF ne]
    by (simp add: yields_andThen then_spec_def handler_spec_def AndThenWrapper_def
        nest_callback_def starts_FutureOrException starts_andThen)
qed

text \<open>
  C2 --- the unit laws of \<open>andThen\<close>.  \<open>makeOk(v).andThen(f)\<close> is the call \<open>f(v)\<close> followed by
  the future it returned, where a standard exception of the call or of the first poll
  becomes the result; \<open>m.andThen(makeOk)\<close> ends exactly as \<open>m\<close> does.
\<close>

theorem andThen_unit_laws:
  assumes "never_empty pb" "never_empty pm"
  shows "(yields (andThen_poll (OkFuture_poll moved) f pb) env (ThenFuture_init v) w r w' \<longleftrightarrow>
      (case f v w of
         None \<Rightarrow> False
       | Some (Ret b, w1) \<Rightarrow> starts pb env b w1 r w'
       | Some (Throw e, w1) \<Rightarrow> r = (if is_std e then Ret (Exception e) else Throw e) \<and> w' = w1
       | Some (Abort, w1) \<Rightarrow> r = Abort \<and> w' = w1)) \<and>
    (yields (andThen_poll pm (\<lambda>x w. Some (Ret x, w)) (OkFuture_poll moved')) env
       (ThenFuture_init m) w r' w' \<longleftrightarrow> yields pm env m w r' w')"
    (is "?left \<and> ?right")
proof
  show ?left
    using assms
    by (auto simp: yields_andThen then_spec_def handler_spec_def AndThenWrapper_def
        starts_FutureOrException split: option.split outcome.split)
  have id: "then_spec (AndThenWrapper (\<lambda>x w. Some (Ret x, w)))
      (FutureOrExceptionFuture_poll (OkFuture_poll moved')) env x w1 r' w' \<longleftrightarrow> r' = x \<and> w' = w1"
    if "x \<noteq> Ret Nothing" for x w1
    using that
    by (cases x rule: unfinal.cases)
      (auto simp: then_spec_def handler_spec_def AndThenWrapper_def starts_FutureOrException)
  have "yields (andThen_poll pm (\<lambda>x w. Some (Ret x, w)) (OkFuture_poll moved')) env
       (ThenFuture_init m) w r' w' \<longleftrightarrow> (\<exists>x w1. yields pm env m w x w1 \<and> r' = x \<and> w' = w1)"
    unfolding yields_andThen by (rule ex_yields_cong [OF assms(2) id])
  then show ?right by simp
qed

theorem andThen_unit_laws_witness:
  "never_empty (OkFuture_poll id :: (nat, nat, nat) poller) \<and>
   never_empty (OkFuture_poll id :: (nat, nat, nat) poller) \<and>
   yields (andThen_poll (OkFuture_poll id) (\<lambda>x w. Some (Throw (UserError x), w + 1))
     (OkFuture_poll id :: (nat, nat, nat) poller)) (=) (ThenFuture_init (7 :: nat)) 0
     (Ret (Exception (UserError 7))) 1 \<and>
   yields (andThen_poll (OkFuture_poll id) (\<lambda>x w. Some (Ret x, w))
     (OkFuture_poll id :: (nat, nat, nat) poller)) (=) (ThenFuture_init (5 :: nat)) 0
     (Ret (Value 5)) 0"
  using andThen_unit_laws [where pb = "OkFuture_poll id :: (nat, nat, nat) poller"
      and pm = "OkFuture_poll id :: (nat, nat, nat) poller" and moved = id and moved' = id
      and f = "\<lambda>x w. Some (Throw (UserError x), w + 1)" and env = "(=)" and v = 7 and m = 5
      and w = 0]
  by simp

subsection \<open>The other chain builders\<close>

lemma never_empty_simps [simp]:
  "never_empty (ResultFuture_poll moved)"
  "never_empty EmptyFuture_poll"
  "never_empty ErrFuture_poll"
  "never_empty (LazyFuture_poll fn)"
  by (auto simp: never_empty_def ResultFuture_poll_def moveFromTry_def EmptyFuture_poll_def
      ErrFuture_poll_def LazyFuture_poll_def try_callback_def
      split: Try.splits option.splits outcome.splits if_splits)

text \<open>
  C3 --- \<open>map\<close>: the mapped future ends with the callback's value on the value of the first
  future, passes its exception through without calling the callback, and turns a standard
  exception of the callback into its result.
\<close>

theorem map_spec:
  assumes "never_empty pa"
  shows "yields (map_poll moved pa func) env (ThenFuture_init a) w r w' \<longleftrightarrow>
    (\<exists>x w1. yields pa env a w x w1 \<and>
       (case x of
          Ret (Value v) \<Rightarrow>
            (case func v w1 of
               None \<Rightarrow> False
             | Some (Ret y, w2) \<Rightarrow> r = Ret (Value y) \<and> w' = w2
             | Some (Throw e, w2) \<Rightarrow> r = (if is_std e then Ret (Exception e) else Throw e) \<and> w' = w2
             | Some (Abort, w2) \<Rightarrow> r = Abort \<and> w' = w2)
        | Ret (Exception e) \<Rightarrow> r = Ret (Exception e) \<and> w' = w1
        | Ret Nothing \<Rightarrow> False
        | Throw e \<Rightarrow> r = Throw e \<and> w' = w1
        | Abort \<Rightarrow> r = Abort \<and> w' = w1))"
  unfolding map_poll_def yields_Then
proof (rule ex_yields_cong [OF assms], goal_cases)
  case (1 x w1)
  then show ?case
    by (cases x rule: unfinal.cases)
      (auto simp: then_spec_def handler_spec_def MapWrapper_def 
        split: option.split outcome.split)
qed

theorem map_spec_witness:
  "never_empty (OkFuture_poll id :: (nat, nat, nat) poller) \<and>
   yields (map_poll id (OkFuture_poll id) (\<lambda>x w. Some (Ret (x * x), w + 1))) (=)
     (ThenFuture_init (5 :: nat)) (0 :: nat) (Ret (Value 25)) 1"
proof -
  have ne: "never_empty (OkFuture_poll id :: (nat, nat, nat) poller)" by simp
  then show ?thesis by (simp add: map_spec [OF ne])
qed

text \<open>
  C4 --- \<open>orElse\<close>: a value passes through and the callback is not called; an exception is
  dropped and the future returned by the callback takes over.
\<close>

theorem orElse_spec:
  assumes "never_empty pa"
  shows "yields (orElse_poll moved pa func pb) env (ThenFuture_init a) w r w' \<longleftrightarrow>
    (\<exists>x w1. yields pa env a w x w1 \<and>
       (case x of
          Ret (Value v) \<Rightarrow> r = Ret (Value v) \<and> w' = w1
        | Ret (Exception e) \<Rightarrow>
            (case func () w1 of
               None \<Rightarrow> False
             | Some (Ret b, w2) \<Rightarrow> starts pb env b w2 r w'
             | Some (Throw e, w2) \<Rightarrow> r = (if is_std e then Ret (Exception e) else Throw e) \<and> w' = w2
             | Some (Abort, w2) \<Rightarrow> r = Abort \<and> w' = w2)
        | Ret Nothing \<Rightarrow> False
        | Throw e \<Rightarrow> r = Throw e \<and> w' = w1
        | Abort \<Rightarrow> r = Abort \<and> w' = w1))"
  unfolding orElse_poll_def yields_Then
proof (rule ex_yields_cong [OF assms], goal_cases)
  case (1 x w1)
  then show ?case
    by (cases x rule: unfinal.cases)
      (auto simp: then_spec_def handler_spec_def OrElseWrapper_def starts_FutureOrValue
        split: option.split outcome.split)
qed

theorem orElse_spec_witness:
  "never_empty (ErrFuture_poll :: (exn, nat, nat) poller) \<and>
   yields (orElse_poll id ErrFuture_poll (\<lambda>_ w. Some (Ret 9, w + 1)) (OkFuture_poll id)) (=)
     (ThenFuture_init PromiseException) (0 :: nat) (Ret (Value (9 :: nat))) 1"
proof -
  have ne: "never_empty (ErrFuture_poll :: (exn, nat, nat) poller)" by simp
  then show ?thesis
    by (simp add: orElse_spec [OF ne] yields_unfold [of ErrFuture_poll] ErrFuture_poll_def)
qed

subsection \<open>What JoinFuture computes\<close>

definition join_pair :: "'a \<Rightarrow> 'b Try outcome \<Rightarrow> ('a \<times> 'b) Try outcome" where
  "join_pair v y =
     (case y of
        Ret (Value u) \<Rightarrow> Ret (Value (v, u))
      | Ret (Exception e) \<Rightarrow> Ret (Exception e)
      | Ret Nothing \<Rightarrow> Throw UsingUninitializedTry
      | Throw e \<Rightarrow> Throw e
      | Abort \<Rightarrow> Abort)"

lemma yields_join_second:
  "yields (JoinFuture_poll ma mb pa pb) env \<lparr>jn_fa = Right v, jn_fb = Left b\<rparr> w r w' \<longleftrightarrow>
   (\<exists>y. yields pb env b w y w' \<and> r = join_pair v y)"
proof -
  let ?J = "JoinFuture_poll ma mb pa pb"
  let ?emb = "\<lambda>b. \<lparr>jn_fa = Right v, jn_fb = Left b\<rparr>"
  let ?k = "\<lambda>y b1 w1. case y of
      Ret (Value u) \<Rightarrow> Some (Ret (makePollReady (v, u)), \<lparr>jn_fa = Right (ma v), jn_fb = Right (mb u)\<rparr>, w1)
    | Ret (Exception e) \<Rightarrow> Some (Ret (Exception e), ?emb b1, w1)
    | Ret Nothing \<Rightarrow> Some (Throw UsingUninitializedTry, ?emb b1, w1)
    | Throw e \<Rightarrow> Some (Throw e, ?emb b1, w1)
    | Abort \<Rightarrow> Some (Abort, ?emb b1, w1)"
  have "yields ?J env (?emb b) w r w' \<longleftrightarrow>
      (\<exists>y b1 w1. resolves pb env b w y b1 w1 \<and> completes ?J env (?k y b1 w1) r w')"
    by (rule yields_seq)
      (auto simp: JoinFuture_poll_def join_second_def join_finish_def call_def
        split: option.split outcome.split Try.split)
  moreover have "completes ?J env (?k y b1 w1) r w' \<longleftrightarrow> r = join_pair v y \<and> w' = w1" for y b1 w1
    by (cases y rule: unfinal.cases) (simp_all add: join_pair_def makePollReady_def)
  ultimately show ?thesis
    by (auto simp: yields_def)
qed

lemma completes_join_second:
  "completes (JoinFuture_poll ma mb pa pb) env
     (join_second ma mb pb \<lparr>jn_fa = Right v, jn_fb = Left b\<rparr> w) r w' \<longleftrightarrow>
   (\<exists>y. yields pb env b w y w' \<and> r = join_pair v y)"
  using yields_join_second [of ma mb pa pb env v b w r w']
  unfolding yields_unfold [of "JoinFuture_poll ma mb pa pb"]
  by (simp add: JoinFuture_poll_def [of ma mb pa pb "\<lparr>jn_fa = Right v, jn_fb = Left b\<rparr>"])

text \<open>
  C5 --- \<open>join\<close> is sequential pairing.  The second future is driven only after the first has
  its value, in the world the first one left; both values are paired, and the first
  failure is the result.
\<close>

theorem join_spec:
  "yields (JoinFuture_poll ma mb pa pb) env (JoinFuture_init a b) w r w' \<longleftrightarrow>
    (\<exists>x w1. yields pa env a w x w1 \<and>
       (case x of
          Ret (Value v) \<Rightarrow> \<exists>y. yields pb env b w1 y w' \<and> r = join_pair v y
        | Ret (Exception e) \<Rightarrow> r = Ret (Exception e) \<and> w' = w1
        | Ret Nothing \<Rightarrow> r = Throw UsingUninitializedTry \<and> w' = w1
        | Throw e \<Rightarrow> r = Throw e \<and> w' = w1
        | Abort \<Rightarrow> r = Abort \<and> w' = w1))"
proof -
  let ?J = "JoinFuture_poll ma mb pa pb"
  let ?emb = "\<lambda>a. JoinFuture_init a b"
  let ?k = "\<lambda>y a1 w1. case y of
      Ret (Value v) \<Rightarrow> join_second ma mb pb \<lparr>jn_fa = Right v, jn_fb = Left b\<rparr> w1
    | Ret (Exception e) \<Rightarrow> Some (Ret (Exception e), ?emb a1, w1)
    | Ret Nothing \<Rightarrow> Some (Throw UsingUninitializedTry, ?emb a1, w1)
    | Throw e \<Rightarrow> Some (Throw e, ?emb a1, w1)
    | Abort \<Rightarrow> Some (Abort, ?emb a1, w1)"
  have "yields ?J env (?emb a) w r w' \<longleftrightarrow>
      (\<exists>y a1 w1. resolves pa env a w y a1 w1 \<and> completes ?J env (?k y a1 w1) r w')"
    by (rule yields_seq)
      (auto simp: JoinFuture_poll_def JoinFuture_init_def call_def
        split: option.split outcome.split Try.split)
  moreover have "completes ?J env (?k y a1 w1) r w' \<longleftrightarrow>
      (case y of
          Ret (Value v) \<Rightarrow> \<exists>y. yields pb env b w1 y w' \<and> r = join_pair v y
        | Ret (Exception e) \<Rightarrow> r = Ret (Exception e) \<and> w' = w1
        | Ret Nothing \<Rightarrow> r = Throw UsingUninitializedTry \<and> w' = w1
        | Throw e \<Rightarrow> r = Throw e \<and> w' = w1
        | Abort \<Rightarrow> r = Abort \<and> w' = w1)" for y a1 w1
    by (cases y rule: unfinal.cases) (simp_all add: completes_join_second)
  ultimately show ?thesis
    by (auto simp: yields_def)
qed

subsection \<open>The contract of a future\<close>

text \<open>
  What a well-behaved future promises to its driver, as a rely-guarantee contract: the
  invariant is stable under steps of the environment; under it a poll returns (it neither
  throws, aborts nor loops), never with an empty \<open>Try\<close>, makes only steps the environment
  may make, and keeps the invariant as long as it is pending.
\<close>

locale future_contract =
  fixes poll :: "('s, 'w, 'a) poller"
    and inv :: "'s \<Rightarrow> 'w \<Rightarrow> bool"
    and env :: "'w \<Rightarrow> 'w \<Rightarrow> bool"
  assumes env_refl: "env w w"
    and env_trans: "env w1 w2 \<Longrightarrow> env w2 w3 \<Longrightarrow> env w1 w3"
    and stable: "inv s w \<Longrightarrow> env w w' \<Longrightarrow> inv s w'"
    and poll_returns: "inv s w \<Longrightarrow> \<exists>p s' w'. poll s w = Some (Ret p, s', w') \<and> p \<noteq> Nothing \<and>
      env w w' \<and> (p = Value None \<longrightarrow> inv s' w')"
begin

lemma resolves_clean:
  assumes "resolves poll env s w r s' w'" "inv s w"
  shows "((\<exists>v. r = Ret (Value v)) \<or> (\<exists>e. r = Ret (Exception e))) \<and> env w w'"
  using assms
proof (induction rule: resolves.induct)
  case (stop s w x s' w' r)
  then show ?case
    using poll_returns [OF stop.prems] by (cases x rule: final.cases) auto
next
  case (again s w x s1 w1 w2 r s' w')
  then have "inv s1 w1" "env w w1"
    using poll_returns [OF again.prems] by auto
  then show ?case
    using again.IH again.hyps(3) by (blast intro: stable env_trans)
qed

lemma yields_clean:
  assumes "yields poll env s w r w'" "inv s w"
  shows "(\<exists>v. r = Ret (Value v)) \<or> (\<exists>e. r = Ret (Exception e))"
  using assms resolves_clean by (fastforce simp: yields_def)

lemma boxed_contract:
  "future_contract (BoxedFuture_poll poll) (\<lambda>b w. \<exists>s. b = Some s \<and> inv s w) env"
proof
  show "\<exists>s. b = Some s \<and> inv s w'" if "\<exists>s. b = Some s \<and> inv s w" "env w w'" for b w w'
    using that stable by blast
  show "\<exists>p b' w'. BoxedFuture_poll poll b w = Some (Ret p, b', w') \<and> p \<noteq> Nothing \<and> env w w' \<and>
      (p = Value None \<longrightarrow> (\<exists>s. b' = Some s \<and> inv s w'))" if "\<exists>s. b = Some s \<and> inv s w" for b w
    using that poll_returns by (fastforce simp: BoxedFuture_poll_def)
qed (blast intro: env_refl env_trans)+

end

text \<open>A chain of two well-behaved futures with a handler that never aborts or loops.\<close>

definition chain_inv :: "('fa \<Rightarrow> 'w \<Rightarrow> bool) \<Rightarrow> ('fb \<Rightarrow> 'w \<Rightarrow> bool) \<Rightarrow> ('fa, 'fb) chain \<Rightarrow> 'w \<Rightarrow> bool" where
  "chain_inv ia ib c w \<longleftrightarrow>
     (\<exists>a. ch_state c = First \<and> ch_v c = Left a \<and> ia a w) \<or>
     (\<exists>b. ch_state c = Second \<and> ch_v c = Right b \<and> ib b w)"

locale then_contract =
  a: future_contract pa ia env + b: future_contract pb ib env
  for pa :: "('fa, 'w, 'a) poller" and ia :: "'fa \<Rightarrow> 'w \<Rightarrow> bool"
    and pb :: "('fb, 'w, 'b) poller" and ib :: "'fb \<Rightarrow> 'w \<Rightarrow> bool"
    and env :: "'w \<Rightarrow> 'w \<Rightarrow> bool" +
  fixes handler :: "('a Try, 'w, 'fb) callback"
  assumes handler_returns: "t \<noteq> Nothing \<Longrightarrow>
      (\<exists>b w'. handler t w = Some (Ret b, w') \<and> ib b w' \<and> env w w') \<or>
      (\<exists>e w'. handler t w = Some (Throw e, w') \<and> is_std e \<and> env w w')"
begin

lemma poll_second_returns:
  assumes "t \<noteq> Nothing" "env w0 w"
  shows "\<exists>p c' w'. poll_second handler pb c t w = Some (Ret p, c', w') \<and> p \<noteq> Nothing \<and>
    env w0 w' \<and> (p = Value None \<longrightarrow> chain_inv ia ib c' w')"
  using handler_returns [OF assms(1), of w]
proof (elim disjE exE conjE, goal_cases)
  case (1 b w1)
  have "env w0 w1"
    using 1(3) assms(2) by (blast intro: a.env_trans)
  then show ?case
    using b.poll_returns [OF 1(2)] 1
    by (auto simp: poll_second_def chain_inv_def Let_def intro: a.env_trans [of w0 w1])
next
  case (2 e w1)
  then show ?case
    using assms(2) by (auto simp: poll_second_def intro: a.env_trans)
qed

lemma then_returns:
  assumes "chain_inv ia ib c w"
  shows "\<exists>p c' w'. ThenFuture_poll pa handler pb c w = Some (Ret p, c', w') \<and> p \<noteq> Nothing \<and>
    env w w' \<and> (p = Value None \<longrightarrow> chain_inv ia ib c' w')"
  using assms unfolding chain_inv_def
proof (elim disjE exE conjE, goal_cases)
  case (1 a)
  obtain p a' w' where p: "pa a w = Some (Ret p, a', w')" "p \<noteq> Nothing" "env w w'"
      "p = Value None \<Longrightarrow> ia a' w'"
    using a.poll_returns [OF 1(3)] by blast
  show ?case
  proof (cases "p = Value None")
    case True
    then show ?thesis
      using 1 p by (auto simp: ThenFuture_poll_def chain_inv_def)
  next
    case False
    then obtain t where "ThenFuture_poll pa handler pb c w =
        poll_second handler pb (c\<lparr>ch_v := Left a'\<rparr>) t w'" "t \<noteq> Nothing"
      using 1 p by (cases p) (auto simp: ThenFuture_poll_def Let_def)
    then show ?thesis
      using poll_second_returns [of t w w'] p(3) by (auto simp: chain_inv_def)
  qed
next
  case (2 b)
  then show ?case
    using b.poll_returns [OF 2(3)] by (auto simp: ThenFuture_poll_def chain_inv_def)
qed

end

sublocale then_contract \<subseteq> chain: future_contract "ThenFuture_poll pa handler pb" "chain_inv ia ib" env
proof
  show "chain_inv ia ib c w'" if "chain_inv ia ib c w" "env w w'" for c w w'
    using that by (auto simp: chain_inv_def intro: a.stable b.stable)
qed (fact a.env_refl, blast intro: a.env_trans, rule then_returns)

context then_contract
begin

lemma chain_contract: "future_contract (ThenFuture_poll pa handler pb) (chain_inv ia ib) env"
  by (rule chain.future_contract_axioms)

end

text \<open>
  Interpretations on the leaf futures of the library, under an arbitrary environment, and
  on a chain built by \<open>cast\<close>.
\<close>

interpretation ok: future_contract "OkFuture_poll moved" "\<lambda>_ _. True" "\<lambda>_ _. True" for moved
  by unfold_locales (auto simp: OkFuture_poll_def)

interpretation err: future_contract ErrFuture_poll "\<lambda>_ _. True" "\<lambda>_ _. True"
  by unfold_locales (auto simp: ErrFuture_poll_def)

interpretation never: future_contract EmptyFuture_poll "\<lambda>_ _. True" "\<lambda>_ _. True"
  by unfold_locales (auto simp: EmptyFuture_poll_def)

interpretation result: future_contract "ResultFuture_poll moved" "\<lambda>t _. t \<noteq> Nothing" "\<lambda>_ _. True"
  for moved
proof (unfold_locales, goal_cases)
  case (4 t w)
  then show ?case
    by (cases t) (auto simp: ResultFuture_poll_def moveFromTry_def)
qed simp_all

interpretation ok_cast: then_contract "OkFuture_poll moved" "\<lambda>_ _. True" "ResultFuture_poll moved'"
  "\<lambda>t _. t \<noteq> Nothing" "\<lambda>_ _. True" "CastWrapper conv" for moved moved' conv
proof (unfold_locales, goal_cases)
  case (1 t w)
  then show ?case
    by (cases t) (auto simp: CastWrapper_def)
qed

lemma FutureOrException_contract:
  assumes "future_contract p I env"
  shows "future_contract (FutureOrExceptionFuture_poll p)
    (\<lambda>t w. (\<exists>e. t = Exception e) \<or> (\<exists>s. t = Value s \<and> I s w)) env"
proof -
  note c = future_contract.env_refl [OF assms] future_contract.env_trans [OF assms]
    future_contract.stable [OF assms]
  show ?thesis
  proof (unfold_locales, goal_cases)
    case (4 t w)
    then show ?case
    proof (elim disjE exE conjE, goal_cases)
      case (2 s)
      then show ?case
        using future_contract.poll_returns [OF assms 2(2)]
        by (auto simp: FutureOrExceptionFuture_poll_def split: Try.split option.split)
    qed (auto simp: FutureOrExceptionFuture_poll_def c(1))
  qed (use c in blast)+
qed

text \<open>
  C6 --- safety of \<open>andThen\<close>.  If both futures keep the contract and the callback always
  returns a good future or throws a standard exception, then however the environment
  interferes between polls the chain never throws out of \<open>poll\<close>, never aborts and never
  returns an empty \<open>Try\<close>: it ends only with a value or an exception value.
\<close>

theorem andThen_safe:
  assumes "future_contract pa ia env" "future_contract pb ib env"
    and "\<And>v w. (\<exists>b w'. f v w = Some (Ret b, w') \<and> ib b w' \<and> env w w') \<or>
           (\<exists>e w'. f v w = Some (Throw e, w') \<and> is_std e \<and> env w w')"
    and "ia a w"
    and "yields (andThen_poll pa f pb) env (ThenFuture_init a) w r w'"
  shows "(\<exists>v. r = Ret (Value v)) \<or> (\<exists>e. r = Ret (Exception e))"
proof -
  let ?ib = "\<lambda>t w. (\<exists>e. t = Exception e) \<or> (\<exists>s. t = Value s \<and> ib s w)"
  have handler: "(\<exists>b w'. AndThenWrapper f t w = Some (Ret b, w') \<and> ?ib b w' \<and> env w w') \<or>
      (\<exists>e w'. AndThenWrapper f t w = Some (Throw e, w') \<and> is_std e \<and> env w w')"
    if "t \<noteq> Nothing" for t w
  proof (cases t)
    case (Value v)
    then show ?thesis
      using assms(3) [of v w] by (auto simp: AndThenWrapper_def)
  qed (use that future_contract.env_refl [OF assms(1)] in \<open>auto simp: AndThenWrapper_def\<close>)
  have "then_contract pa ia (FutureOrExceptionFuture_poll pb) ?ib env (AndThenWrapper f)"
    by (intro then_contract.intro then_contract_axioms.intro assms(1)
        FutureOrException_contract [OF assms(2)] handler)
  then have "future_contract (andThen_poll pa f pb) (chain_inv ia ?ib) env"
    unfolding andThen_poll_def by (rule then_contract.chain_contract)
  then show ?thesis
    by (rule future_contract.yields_clean [OF _ assms(5)])
      (simp add: chain_inv_def ThenFuture_init_def assms(4))
qed

theorem andThen_safe_witness:
  "future_contract (OkFuture_poll id :: (nat, nat, nat) poller) (\<lambda>_ _. True) (\<lambda>_ _. True) \<and>
   yields (andThen_poll (OkFuture_poll id) (\<lambda>x w. Some (Ret (x + 1), w + 1))
     (OkFuture_poll id :: (nat, nat, nat) poller)) (\<lambda>_ _. True) (ThenFuture_init 3) 0
     (Ret (Value 4)) 1 \<and>
   ((\<exists>v. Ret (Value 4) = Ret (Value (v :: nat))) \<or> (\<exists>e. Ret (Value (4 :: nat)) = Ret (Exception e)))"
proof (intro conjI)
  show c: "future_contract (OkFuture_poll id :: (nat, nat, nat) poller) (\<lambda>_ _. True) (\<lambda>_ _. True)"
    by (rule ok.future_contract_axioms)
  show y: "yields (andThen_poll (OkFuture_poll id) (\<lambda>x w. Some (Ret (x + 1), w + 1))
     (OkFuture_poll id :: (nat, nat, nat) poller)) (\<lambda>_ _. True) (ThenFuture_init 3) 0
     (Ret (Value 4)) 1"
    by (simp add: yields_andThen then_spec_def handler_spec_def AndThenWrapper_def
        starts_FutureOrException)
  show "(\<exists>v. Ret (Value 4) = Ret (Value (v :: nat))) \<or> (\<exists>e. Ret (Value (4 :: nat)) = Ret (Exception e))"
    by (rule andThen_safe [OF c c _ _ y]) simp_all
qed

end
