(* ===== verification/Tasks.thy ===== *)
theory Tasks
  imports Futures
begin

text \<open>
  The task context of \<open>Task.h\<close> and \<open>ThreadLocalData.h\<close>, and \<open>FutureSpawn\<close> of
  \<open>Future.h\<close>, which drives a future on the calling thread.  A task is its id; calling
  \<open>unpark\<close> on it is recorded in a log, so that a theorem can speak about wake-ups.
  Worlds are extensions of the record \<open>task_world\<close>.
\<close>

subsection \<open>The current task\<close>

record task_world =
  tw_current :: "nat option"
  tw_unparked :: "nat list"
  tw_next_id :: nat

definition newTaskId :: "'z task_world_scheme \<Rightarrow> nat \<times> 'z task_world_scheme" where
  "newTaskId w = (let i = tw_next_id w + 1 in (i, w\<lparr>tw_next_id := i\<rparr>))"

definition Task_unpark :: "nat \<Rightarrow> 'z task_world_scheme \<Rightarrow> 'z task_world_scheme" where
  "Task_unpark t w = w\<lparr>tw_unparked := tw_unparked w @ [t]\<rparr>"

text \<open>\<open>CurrentTask::park\<close> asserts that there is a task.\<close>

definition CurrentTask_park :: "'z task_world_scheme \<Rightarrow> nat outcome" where
  "CurrentTask_park w = (case tw_current w of None \<Rightarrow> Abort | Some t \<Rightarrow> Ret t)"

text \<open>
  \<open>WithGuard\<close>: the constructor saves the current task and installs another one, the
  destructor restores it on every way out of the scope.
\<close>

definition WithGuard ::
  "nat \<Rightarrow> ('s, 'z task_world_scheme, 'a) member_fn \<Rightarrow> ('s, 'z task_world_scheme, 'a) member_fn" where
  "WithGuard t body s w =
     (case body s (w\<lparr>tw_current := Some t\<rparr>) of
        None \<Rightarrow> None
      | Some (r, s', w') \<Rightarrow> Some (r, s', w'\<lparr>tw_current := tw_current w\<rparr>))"

subsection \<open>FutureSpawn\<close>

record 's future_spawn =
  fs_id :: nat
  fs_toplevel :: 's

definition FutureSpawn_new ::
  "'s \<Rightarrow> 'z task_world_scheme \<Rightarrow> 's future_spawn \<times> 'z task_world_scheme" where
  "FutureSpawn_new fut w = (let (i, w') = newTaskId w in (\<lparr>fs_id = i, fs_toplevel = fut\<rparr>, w'))"

definition poll_future ::
  "('s, 'z task_world_scheme, 'a) poller \<Rightarrow> ('s future_spawn, 'z task_world_scheme, 'a) poller" where
  "poll_future p fs w =
     call (WithGuard (fs_id fs) p (fs_toplevel fs) w) (\<lambda>s. fs\<lparr>fs_toplevel := s\<rparr>)
       (\<lambda>r s w'. Some (Ret r, fs\<lparr>fs_toplevel := s\<rparr>, w'))"

text \<open>
  \<open>ThreadUnpark\<close> has the flag \<open>ready\<close>, set by \<open>unpark\<close>.  \<open>park\<close> returns at once when the
  flag is set and otherwise blocks until it is; \<open>sleep\<close> is what the other threads do to
  the world up to the wake-up, \<open>None\<close> when none comes.  Either way the flag is set when
  \<open>park\<close> returns.
\<close>

definition ThreadUnpark_unpark :: "bool \<Rightarrow> bool" where
  "ThreadUnpark_unpark ready = True"

definition ThreadUnpark_park :: "('w \<Rightarrow> 'w option) \<Rightarrow> bool \<Rightarrow> 'w \<Rightarrow> (bool \<times> 'w) option" where
  "ThreadUnpark_park sleep ready w =
     (if ready then Some (ready, w)
      else (case sleep w of
              None \<Rightarrow> None
            | Some w' \<Rightarrow> Some (ThreadUnpark_unpark False, w')))"

text \<open>
  \<open>wait_future\<close>: the flag is set before \<open>park\<close> when the task was unparked during the
  poll, which the log shows.
\<close>

partial_function (option) wait_loop ::
  "('s, 'z task_world_scheme, 'a) poller \<Rightarrow> ('z task_world_scheme \<Rightarrow> 'z task_world_scheme option)
   \<Rightarrow> bool \<Rightarrow> 's future_spawn \<Rightarrow> 'z task_world_scheme
   \<Rightarrow> ('s future_spawn, 'z task_world_scheme, 'a poll) member_call" where
  "wait_loop p sleep ready fs w =
     call (poll_future p fs w) id
       (\<lambda>r fs' w'.
          case r of
            Exception e \<Rightarrow> Some (Ret r, fs', w')
          | Nothing \<Rightarrow> Some (Throw UsingUninitializedTry, fs', w')
          | Value (Some v) \<Rightarrow> Some (Ret r, fs', w')
          | Value None \<Rightarrow>
              Option.bind
                (ThreadUnpark_park sleep
                   (if fs_id fs \<in> set (drop (length (tw_unparked w)) (tw_unparked w'))
                    then ThreadUnpark_unpark ready else ready) w')
                (\<lambda>(ready', w''). wait_loop p sleep ready' fs' w''))"

definition wait_future ::
  "('s, 'z task_world_scheme, 'a) poller \<Rightarrow> ('z task_world_scheme \<Rightarrow> 'z task_world_scheme option)
   \<Rightarrow> ('s future_spawn, 'z task_world_scheme, 'a) poller" where
  "wait_future p sleep fs w = wait_loop p sleep False fs w"

subsection \<open>What wait returns\<close>

text \<open>What happens between two polls of \<open>wait_future\<close>: nothing, or a blocked \<open>park\<close>.\<close>

definition park_env :: "('w \<Rightarrow> 'w option) \<Rightarrow> 'w \<Rightarrow> 'w \<Rightarrow> bool" where
  "park_env sleep w w' \<longleftrightarrow> w' = w \<or> sleep w = Some w'"

lemma park_env_park: "ThreadUnpark_park sleep ready w = Some (b, w') \<Longrightarrow> park_env sleep w w' \<and> b"
  by (auto simp: ThreadUnpark_park_def ThreadUnpark_unpark_def park_env_def
      split: if_splits option.splits)

text \<open>An outcome of the wait loop as an outcome of the driver.\<close>

definition wait_result :: "'a poll outcome \<Rightarrow> 'a Try outcome \<Rightarrow> bool" where
  "wait_result x r \<longleftrightarrow>
     (if r = Ret Nothing then x = Throw UsingUninitializedTry else final x = Some r)"

lemma wait_loop_resolves:
  assumes "wait_loop p sleep ready fs w = Some y"
  shows "\<exists>r. wait_result (fst y) r \<and>
    resolves (poll_future p) (park_env sleep) fs w r (fst (snd y)) (snd (snd y))"
proof (rule wait_loop.raw_induct [where P = "\<lambda>p sleep ready fs w y.
    \<exists>r. wait_result (fst y) r \<and>
      resolves (poll_future p) (park_env sleep) fs w r (fst (snd y)) (snd (snd y))",
    OF _ assms], goal_cases)
  case (1 rec p sleep ready fs w y)
  show ?case
  proof (cases "poll_future p fs w" rule: member_call_cases)
    case (Returns t fs1 w1)
    show ?thesis
    proof (cases "t = Value None")
      case True
      then obtain ready' w2 b where park: "ThreadUnpark_park sleep b w1 = Some (ready', w2)"
          and rec: "rec p sleep ready' fs1 w2 = Some y"
        using 1(2) Returns by (auto simp: bind_eq_Some_conv)
      then show ?thesis
        using 1(1) [OF rec] park_env_park [OF park] Returns True
        by (blast intro: resolves_pending)
    next
      case False
      then obtain r where r: "final (Ret t) = Some r" "wait_result (fst y) r" "snd y = (fs1, w1)"
        using 1(2) Returns by (cases t) (auto simp: wait_result_def)
      then show ?thesis
        using resolves.stop [of "poll_future p" fs w "Ret t" fs1 w1 r] Returns by auto
    qed
  next
    case (Throws e fs1 w1)
    then show ?thesis
      using 1(2) resolves.stop [of "poll_future p" fs w "Throw e" fs1 w1 "Throw e"]
      by (auto simp: wait_result_def)
  next
    case (Aborts fs1 w1)
    then show ?thesis
      using 1(2) resolves.stop [of "poll_future p" fs w Abort fs1 w1 Abort]
      by (auto simp: wait_result_def)
  qed (use 1(2) in simp)
qed

text \<open>
  \<open>must_resolve p env s w\<close>: whatever the environment does between polls, polling \<open>s\<close>
  ends after finitely many polls.
\<close>

inductive must_resolve :: "('s, 'w, 'a) poller \<Rightarrow> ('w \<Rightarrow> 'w \<Rightarrow> bool) \<Rightarrow> 's \<Rightarrow> 'w \<Rightarrow> bool"
  for p :: "('s, 'w, 'a) poller" and env :: "'w \<Rightarrow> 'w \<Rightarrow> bool" where
  must: "p s w = Some (x, s1, w1) \<Longrightarrow> (\<And>w2. final x = None \<Longrightarrow> env w1 w2 \<Longrightarrow> must_resolve p env s1 w2)
    \<Longrightarrow> must_resolve p env s w"

lemma park_wakes:
  "sleep w \<noteq> None \<Longrightarrow> \<exists>b w'. ThreadUnpark_park sleep ready w = Some (b, w')"
  by (auto simp: ThreadUnpark_park_def)

lemma wait_loop_returns:
  assumes "must_resolve (poll_future p) (park_env sleep) fs w" "\<And>w. sleep w \<noteq> None"
  shows "\<exists>y. wait_loop p sleep ready fs w = Some y"
  using assms(1)
proof (induction arbitrary: ready rule: must_resolve.induct)
  case (must fs w x fs1 w1)
  show ?case
  proof (cases "x = Ret (Value None)")
    case True
    let ?flag = "if fs_id fs \<in> set (drop (length (tw_unparked w)) (tw_unparked w1))
      then ThreadUnpark_unpark ready else ready"
    obtain b w2 where park: "ThreadUnpark_park sleep ?flag w1 = Some (b, w2)"
      using park_wakes [of sleep w1 ?flag] assms(2) by blast
    have "\<exists>y. wait_loop p sleep b fs1 w2 = Some y"
      using True park_env_park [OF park] by (intro must.IH) simp_all
    then show ?thesis
      using must.hyps True park by (subst wait_loop.simps) simp
  next
    case False
    then show ?thesis
      using must.hyps
      by (cases x rule: final.cases; subst wait_loop.simps) simp_all
  qed
qed


text \<open>A future that is pending once and wakes its task, for the witness.\<close>

definition yield_once :: "(bool, 'z task_world_scheme, nat) poller" where
  "yield_once polled w =
     (if polled then Some (Ret (Value (Some 42)), polled, w)
      else (case tw_current w of
              None \<Rightarrow> Some (Abort, polled, w)
            | Some t \<Rightarrow> Some (Ret (Value None), True, Task_unpark t w)))"


lemma park_ready [simp]:
  "ThreadUnpark_park sleep True w = Some (True, w)"
  "ThreadUnpark_unpark b = True"
  by (simp_all add: ThreadUnpark_park_def ThreadUnpark_unpark_def)

lemma wait_loop_sticky:
  assumes "wait_loop p sleep True fs w = Some y"
  shows "wait_loop p sleep' True fs w = Some y"
proof -
  have "True \<longrightarrow> wait_loop p sleep' True fs w = Some y"
  proof (rule wait_loop.raw_induct [where P = "\<lambda>p sleep ready fs w y.
        ready \<longrightarrow> wait_loop p sleep' True fs w = Some y", OF _ assms], rule impI, goal_cases)
    case (1 rec p sleep ready fs w y)
    have IH: "rec p sleep True fs1 w1 = Some y \<Longrightarrow> wait_loop p sleep' True fs1 w1 = Some y" for fs1 w1
      using 1(1) by blast
    show ?case
      using 1(2,3) IH
      by (cases "poll_future p fs w" rule: member_call_cases; subst wait_loop.simps)
        (auto split: Try.splits option.splits if_splits)
  qed
  then show ?thesis by simp
qed


end
