(* ===== verification/Multi.thy ===== *)
theory Multi
  imports Tasks
begin

text \<open>
  Futures over several futures: \<open>SelectFuture\<close>, \<open>WhenAllFuture\<close>, the static \<open>whenAny\<close> and
  \<open>whenAll\<close> of \<open>StaticMultiFuture.h\<close>, \<open>LoopFnFuture\<close>, and \<open>SharedFuture\<close>.  A loop over a
  vector is a recursion that carries the part already visited; the index of the code is
  the length of that part.  The heterogeneous tuples of the static versions are lists over
  one state type, with one \<open>poll\<close> that dispatches on it.
\<close>

subsection \<open>SelectFuture\<close>

text \<open>\<open>remove_nth\<close> swaps with the last element and pops, unless \<open>i\<close> is the last index.\<close>

definition remove_nth :: "nat \<Rightarrow> 'f list \<Rightarrow> 'f list" where
  "remove_nth i seq =
     (if length seq - 1 \<noteq> i
      then butlast (seq[i := seq ! (length seq - 1), length seq - 1 := seq ! i])
      else seq)"

fun select_loop ::
  "('f, 'w, 'a) poller \<Rightarrow> 'f list \<Rightarrow> 'f list \<Rightarrow> 'w
   \<Rightarrow> ('f list, 'w, ('a Try \<times> 'f list) poll) member_call" where
  "select_loop p done [] w = Some (Ret not_ready, done, w)"
| "select_loop p done (f # rest) w =
     call (p f w) (\<lambda>f'. done @ f' # rest)
       (\<lambda>r f' w'.
          let seq = done @ f' # rest in
          case r of
            Exception e \<Rightarrow>
              Some (Ret (makePollReady (Exception e, remove_nth (length done) seq)), [], w')
          | Nothing \<Rightarrow> Some (Throw UsingUninitializedTry, seq, w')
          | Value (Some v) \<Rightarrow>
              Some (Ret (makePollReady (Value v, remove_nth (length done) seq)), [], w')
          | Value None \<Rightarrow> select_loop p (done @ [f']) rest w')"

definition SelectFuture_poll :: "('f, 'w, 'a) poller \<Rightarrow> ('f list, 'w, 'a Try \<times> 'f list) poller" where
  "SelectFuture_poll p seq w =
     (if length seq = 0 then Some (Throw InvalidPollStateException, seq, w)
      else select_loop p [] seq w)"

subsection \<open>WhenAllFuture\<close>

definition WhenAllFuture_new :: "'f list \<Rightarrow> ('f, 'a) Either list outcome" where
  "WhenAllFuture_new fs = (if fs = [] then Throw FutureEmptySetException else Ret (map Left fs))"

text \<open>
  The tail of \<open>poll\<close>: the result vector is only reserved, so its size is 0 and the first
  \<open>vs[i] = ...\<close> is out of range; with no element there is no access.
\<close>

definition whenall_finish :: "('f, 'a) Either list \<Rightarrow> 'w \<Rightarrow> (('f, 'a) Either list, 'w, 'a list poll) member_call" where
  "whenall_finish all w =
     (if all = [] then Some (Ret (makePollReady []), [], w) else Some (Abort, all, w))"

fun whenall_loop ::
  "('f, 'w, 'a) poller \<Rightarrow> bool \<Rightarrow> ('f, 'a) Either list \<Rightarrow> ('f, 'a) Either list \<Rightarrow> 'w
   \<Rightarrow> (('f, 'a) Either list, 'w, 'a list poll) member_call" where
  "whenall_loop p all_done pre [] w =
     (if all_done then whenall_finish pre w else Some (Ret not_ready, pre, w))"
| "whenall_loop p all_done pre (e # rest) w =
     (case e of
        Left f \<Rightarrow>
          call (p f w) (\<lambda>f'. pre @ Left f' # rest)
            (\<lambda>r f' w'.
               case r of
                 Exception x \<Rightarrow> Some (Ret (Exception x), [], w')
               | Nothing \<Rightarrow> Some (Throw UsingUninitializedTry, pre @ Left f' # rest, w')
               | Value (Some v) \<Rightarrow> whenall_loop p all_done (pre @ [Right v]) rest w'
               | Value None \<Rightarrow> whenall_loop p False (pre @ [Left f']) rest w')
      | _ \<Rightarrow> whenall_loop p all_done (pre @ [e]) rest w)"

definition WhenAllFuture_poll :: "('f, 'w, 'a) poller \<Rightarrow> (('f, 'a) Either list, 'w, 'a list) poller" where
  "WhenAllFuture_poll p all w = whenall_loop p True [] all w"

subsection \<open>whenAny and whenAll on a tuple\<close>

text \<open>A case of \<open>whenAny\<close>: a future and the callback for its value.\<close>

definition SelectCase_tryMatch ::
  "('f, 'w, 'a) poller \<Rightarrow> ('a, 'w, unit) callback \<Rightarrow> 'f \<Rightarrow> 'w \<Rightarrow> ('f, 'w, bool Try) member_call" where
  "SelectCase_tryMatch p func f w =
     call (p f w) id
       (\<lambda>r f' w'.
          case r of
            Exception e \<Rightarrow> Some (Ret (Exception e), f', w')
          | Nothing \<Rightarrow> Some (Throw UsingUninitializedTry, f', w')
          | Value (Some v) \<Rightarrow> run_callback (func v w') f' (\<lambda>_ w''. Some (Ret (Value True), f', w''))
          | Value None \<Rightarrow> Some (Ret (Value False), f', w'))"

fun static_select_loop ::
  "('c \<Rightarrow> 'w \<Rightarrow> ('c, 'w, bool Try) member_call) \<Rightarrow> 'c list \<Rightarrow> 'c list \<Rightarrow> 'w
   \<Rightarrow> ('c list, 'w, nat poll) member_call" where
  "static_select_loop match pre [] w = Some (Ret not_ready, pre, w)"
| "static_select_loop match pre (c # rest) w =
     call (match c w) (\<lambda>c'. pre @ c' # rest)
       (\<lambda>r c' w'.
          case r of
            Exception e \<Rightarrow> Some (Ret (Exception e), pre @ c' # rest, w')
          | Nothing \<Rightarrow> Some (Throw UsingUninitializedTry, pre @ c' # rest, w')
          | Value b \<Rightarrow>
              if b then Some (Ret (makePollReady (length pre)), pre @ c' # rest, w')
              else static_select_loop match (pre @ [c']) rest w')"

definition StaticSelect_poll ::
  "('c \<Rightarrow> 'w \<Rightarrow> ('c, 'w, bool Try) member_call) \<Rightarrow> ('c list, 'w, nat) poller" where
  "StaticSelect_poll match cs w = static_select_loop match [] cs w"

record ('f, 'a) when_all =
  wa_cases :: "('f, 'a) Either list"
  wa_finished :: nat

definition StaticWhenAll_new :: "'f list \<Rightarrow> ('f, 'a) when_all" where
  "StaticWhenAll_new fs = \<lparr>wa_cases = map Left fs, wa_finished = 0\<rparr>"

text \<open>\<open>Unwrap\<close> reads \<open>right()\<close> of every element, which throws on the first one that has none.\<close>

definition wa_unwrap :: "('f, 'a) Either list \<Rightarrow> 'a list outcome" where
  "wa_unwrap es =
     (if \<forall>e\<in>set es. hasRight e
      then Ret (map (\<lambda>e. case e of Right v \<Rightarrow> v) es)
      else Throw EitherEmptyException)"

definition wa_moved :: "('a \<Rightarrow> 'a) \<Rightarrow> ('f, 'a) Either \<Rightarrow> ('f, 'a) Either" where
  "wa_moved moved e = (case e of Right v \<Rightarrow> Right (moved v) | _ \<Rightarrow> e)"

fun wa_loop ::
  "('a \<Rightarrow> 'a) \<Rightarrow> ('f, 'w, 'a) poller \<Rightarrow> nat \<Rightarrow> ('f, 'a) Either list \<Rightarrow> ('f, 'a) Either list \<Rightarrow> 'w
   \<Rightarrow> (('f, 'a) when_all, 'w, 'a list poll) member_call" where
  "wa_loop moved p fin pre [] w =
     (if fin \<ge> length pre
      then (case wa_unwrap pre of
              Ret vs \<Rightarrow>
                Some (Ret (makePollReady vs),
                      \<lparr>wa_cases = map (wa_moved moved) pre, wa_finished = fin\<rparr>, w)
            | Throw e \<Rightarrow> Some (Throw e, \<lparr>wa_cases = pre, wa_finished = fin\<rparr>, w)
            | Abort \<Rightarrow> Some (Abort, \<lparr>wa_cases = pre, wa_finished = fin\<rparr>, w))
      else Some (Ret not_ready, \<lparr>wa_cases = pre, wa_finished = fin\<rparr>, w))"
| "wa_loop moved p fin pre (e # rest) w =
     (case e of
        Left f \<Rightarrow>
          call (p f w) (\<lambda>f'. \<lparr>wa_cases = pre @ Left f' # rest, wa_finished = fin\<rparr>)
            (\<lambda>r f' w'.
               case r of
                 Exception x \<Rightarrow>
                   Some (Ret (Exception x), \<lparr>wa_cases = pre @ Left f' # rest, wa_finished = fin\<rparr>, w')
               | Nothing \<Rightarrow>
                   Some (Throw UsingUninitializedTry,
                         \<lparr>wa_cases = pre @ Left f' # rest, wa_finished = fin\<rparr>, w')
               | Value (Some v) \<Rightarrow> wa_loop moved p (fin + 1) (pre @ [Right v]) rest w'
               | Value None \<Rightarrow> wa_loop moved p fin (pre @ [Left f']) rest w')
      | _ \<Rightarrow> wa_loop moved p fin (pre @ [e]) rest w)"

definition StaticWhenAll_poll ::
  "('a \<Rightarrow> 'a) \<Rightarrow> ('f, 'w, 'a) poller \<Rightarrow> (('f, 'a) when_all, 'w, 'a list) poller" where
  "StaticWhenAll_poll moved p wa w = wa_loop moved p (wa_finished wa) [] (wa_cases wa) w"

subsection \<open>LoopFnFuture\<close>

text \<open>\<open>Left\<close> is \<open>makeBreak\<close>, \<open>Right\<close> is \<open>makeContinue\<close>.\<close>

record ('st, 'f) loop_fn =
  lf_init :: 'st
  lf_fut :: "'f option"

definition LoopFn_new :: "'st \<Rightarrow> ('st, 'f) loop_fn" where
  "LoopFn_new s = \<lparr>lf_init = s, lf_fut = None\<rparr>"

partial_function (option) loop_fn_loop ::
  "('st, 'w, 'f) callback \<Rightarrow> ('f, 'w, ('b, 'st) Either) poller \<Rightarrow> 'st \<Rightarrow> 'f \<Rightarrow> 'w
   \<Rightarrow> (('st, 'f) loop_fn, 'w, 'b poll) member_call" where
  "loop_fn_loop func p init f w =
     call (p f w) (\<lambda>f'. \<lparr>lf_init = init, lf_fut = Some f'\<rparr>)
       (\<lambda>r f' w'.
          case r of
            Exception e \<Rightarrow> Some (Ret (Exception e), \<lparr>lf_init = init, lf_fut = Some f'\<rparr>, w')
          | Nothing \<Rightarrow> Some (Throw UsingUninitializedTry, \<lparr>lf_init = init, lf_fut = Some f'\<rparr>, w')
          | Value None \<Rightarrow> Some (Ret not_ready, \<lparr>lf_init = init, lf_fut = Some f'\<rparr>, w')
          | Value (Some v) \<Rightarrow>
              (case v of
                 Left b \<Rightarrow> Some (Ret (makePollReady b), \<lparr>lf_init = init, lf_fut = None\<rparr>, w')
               | Right s \<Rightarrow>
                   run_callback (func s w') \<lparr>lf_init = init, lf_fut = Some f'\<rparr>
                     (\<lambda>f'' w''. loop_fn_loop func p init f'' w'')
               | Uninit \<Rightarrow>
                   Some (Throw EitherEmptyException, \<lparr>lf_init = init, lf_fut = Some f'\<rparr>, w')))"

definition LoopFn_poll ::
  "('st \<Rightarrow> 'st) \<Rightarrow> ('st, 'w, 'f) callback \<Rightarrow> ('f, 'w, ('b, 'st) Either) poller
   \<Rightarrow> (('st, 'f) loop_fn, 'w, 'b) poller" where
  "LoopFn_poll moved func p l w =
     (case lf_fut l of
        None \<Rightarrow>
          run_callback (func (lf_init l) w) (l\<lparr>lf_init := moved (lf_init l)\<rparr>)
            (\<lambda>f w'. loop_fn_loop func p (moved (lf_init l)) f w')
      | Some f \<Rightarrow> loop_fn_loop func p (lf_init l) f w)"

subsection \<open>SharedFuture\<close>

text \<open>The shared \<open>Inner\<close>; the mutex makes each operation one step.\<close>

record ('s, 'a) shared =
  sh_impl :: "'s option"
  sh_waiters :: "nat list"
  sh_result :: "'a poll option"

definition SharedFuture_new :: "'s \<Rightarrow> ('s, 'a) shared" where
  "SharedFuture_new f = \<lparr>sh_impl = Some f, sh_waiters = [], sh_result = None\<rparr>"

definition shared_unpark_all ::
  "('s, 'a) shared \<Rightarrow> 'z task_world_scheme \<Rightarrow> ('s, 'a) shared \<times> 'z task_world_scheme" where
  "shared_unpark_all sh w = (sh\<lparr>sh_waiters := []\<rparr>, fold Task_unpark (sh_waiters sh) w)"

text \<open>\<open>park\<close> dereferences \<open>CurrentTask::current()\<close> without a check.\<close>

definition shared_park :: "('s, 'a) shared \<Rightarrow> 'z task_world_scheme \<Rightarrow> ('s, 'a) shared outcome" where
  "shared_park sh w =
     (case tw_current w of
        None \<Rightarrow> Abort
      | Some t \<Rightarrow> Ret (sh\<lparr>sh_waiters := sh_waiters sh @ [t]\<rparr>))"

definition SharedFuture_poll ::
  "('s, 'z task_world_scheme, 'a) poller \<Rightarrow> (('s, 'a) shared, 'z task_world_scheme, 'a) poller" where
  "SharedFuture_poll p sh w =
     (case sh_result sh of
        Some r \<Rightarrow> Some (Ret r, sh, w)
      | None \<Rightarrow>
          (case sh_impl sh of
             None \<Rightarrow> Some (Abort, sh, w)
           | Some f \<Rightarrow>
               call (p f w) (\<lambda>f'. sh\<lparr>sh_impl := Some f'\<rparr>)
                 (\<lambda>r f' w'.
                    let sh1 = sh\<lparr>sh_impl := Some f'\<rparr> in
                    case r of
                      Nothing \<Rightarrow> Some (Throw UsingUninitializedTry, sh1, w')
                    | Value None \<Rightarrow>
                        (case shared_park sh1 w' of
                           Ret sh2 \<Rightarrow> Some (Ret not_ready, sh2, w')
                         | Throw e \<Rightarrow> Some (Throw e, sh1, w')
                         | Abort \<Rightarrow> Some (Abort, sh1, w'))
                    | _ \<Rightarrow>
                        (let (sh2, w2) =
                           shared_unpark_all (sh1\<lparr>sh_result := Some r, sh_impl := None\<rparr>) w' in
                         Some (Ret r, sh2, w2)))))"

text \<open>The destructor of one handle; the result, if any, stays with the others.\<close>

definition SharedFuture_drop ::
  "('s, 'a) shared \<Rightarrow> 'z task_world_scheme \<Rightarrow> ('s, 'a) shared \<times> 'z task_world_scheme" where
  "SharedFuture_drop sh w =
     (if sh_result sh \<noteq> None then (sh, w) else shared_unpark_all sh w)"

subsection \<open>What select returns\<close>

text \<open>Polling a list of futures in order while all of them are pending.\<close>

fun poll_pending :: "('f, 'w, 'a) poller \<Rightarrow> 'f list \<Rightarrow> 'w \<Rightarrow> ('f list \<times> 'w) option" where
  "poll_pending p [] w = Some ([], w)"
| "poll_pending p (f # fs) w =
     (case p f w of
        Some (Ret (Value None), f', w') \<Rightarrow>
          map_option (\<lambda>(fs', w''). (f' # fs', w'')) (poll_pending p fs w')
      | _ \<Rightarrow> None)"

lemma select_loop_pending:
  assumes "poll_pending p pre w = Some (pre', w1)"
  shows "select_loop p done (pre @ rest) w = select_loop p (done @ pre') rest w1"
  using assms
proof (induction p pre w arbitrary: "done" pre' rule: poll_pending.induct)
  case (2 p f fs w)
  then show ?case
    by (cases "p f w" rule: member_call_cases) (auto split: Try.splits option.splits)
qed simp

lemma remove_nth_mid:
  "remove_nth (length pre) (pre @ f # rest) =
     (if rest = [] then pre @ [f] else pre @ last rest # butlast rest)"
proof (cases "rest = []")
  case False
  then obtain ys y where rest: "rest = ys @ [y]"
    by (cases rest rule: rev_cases) auto
  have "(pre @ f # ys @ [y])[length pre := y, length pre + length ys + 1 := f] = pre @ y # ys @ [f]"
    by (simp add: list_update_append split: nat.split)
  then show ?thesis
    by (simp add: rest remove_nth_def nth_append butlast_append)
qed (simp add: remove_nth_def)

text \<open>
  C12 --- \<open>select\<close> polls its futures in order and answers with the first one that completes,
  value or exception.  The futures handed back are the others, with the last one moved into
  the gap; but when the one that completed is the last of the sequence, it is not removed.
\<close>

theorem select_answers_first:
  assumes "poll_pending p pre w = Some (pre', w1)"
    and "p f w1 = Some (Ret x, f', w2)" "final (Ret x) = Some (Ret t)" "t \<noteq> Nothing"
  shows "SelectFuture_poll p (pre @ f # rest) w =
    Some (Ret (makePollReady
      (t, if rest = [] then pre' @ [f'] else pre' @ last rest # butlast rest)), [], w2)"
proof -
  have "SelectFuture_poll p (pre @ f # rest) w = select_loop p pre' (f # rest) w1"
    using select_loop_pending [OF assms(1), of "[]" "f # rest"] by (simp add: SelectFuture_poll_def)
  then show ?thesis
    using assms(2-4)
    by (cases x) (auto simp: Let_def remove_nth_mid split: option.splits)
qed

theorem select_answers_first_witness:
  "poll_pending (\<lambda>n w. Some (Ret (if n = 0 then Value None else Value (Some n)), n, w + 1))
     [0 :: nat] (0 :: nat) = Some ([0], 1) \<and>
   SelectFuture_poll (\<lambda>n w. Some (Ret (if n = 0 then Value None else Value (Some n)), n, w + 1))
     [0, 7 :: nat] (0 :: nat) = Some (Ret (makePollReady (Value 7, [0, 7])), [], 2) \<and>
   SelectFuture_poll (\<lambda>n w. Some (Ret (if n = 0 then Value None else Value (Some n)), n, w + 1))
     [0, 7, 8 :: nat] (0 :: nat) = Some (Ret (makePollReady (Value 7, [0, 8])), [], 2)"
  using select_answers_first [of "\<lambda>n w. Some (Ret (if n = 0 then Value None else Value (Some n)), n, w + 1)"
      "[0 :: nat]" "0 :: nat" "[0]" 1 7 "Value (Some 7)" 7 2 "Value 7" "[]"]
    select_answers_first [of "\<lambda>n w. Some (Ret (if n = 0 then Value None else Value (Some n)), n, w + 1)"
      "[0 :: nat]" "0 :: nat" "[0]" 1 7 "Value (Some 7)" 7 2 "Value 7" "[8]"]
  by simp

subsection \<open>WhenAllFuture never delivers\<close>

lemma whenall_loop_result:
  assumes "whenall_loop p d pre rest w = Some (Ret (Value x), st, w')"
  shows "(x = None \<and> length st = length pre + length rest) \<or> (x = Some [] \<and> pre = [] \<and> rest = [])"
  using assms
proof (induction p d pre rest w rule: whenall_loop.induct)
  case (1 p d pre w)
  then show ?case by (auto simp: whenall_finish_def makePollReady_def split: if_splits)
next
  case (2 p d pre e rest w)
  show ?case
  proof (cases e)
    case (Left f)
    then show ?thesis
      using 2 by (cases "p f w" rule: member_call_cases)
        (fastforce split: Try.splits option.splits)+
  qed (use 2 in fastforce)+
qed



subsection \<open>whenAll on a tuple\<close>

text \<open>One round: every unfinished future is polled once, in order, and none fails.\<close>

fun wa_round :: "('f, 'w, 'a) poller \<Rightarrow> ('f, 'a) Either list \<Rightarrow> 'w \<Rightarrow> (('f, 'a) Either list \<times> 'w) option" where
  "wa_round p [] w = Some ([], w)"
| "wa_round p (Left f # es) w =
     (case p f w of
        Some (Ret (Value (Some v)), f', w') \<Rightarrow> map_option (\<lambda>(es', w''). (Right v # es', w'')) (wa_round p es w')
      | Some (Ret (Value None), f', w') \<Rightarrow> map_option (\<lambda>(es', w''). (Left f' # es', w'')) (wa_round p es w')
      | _ \<Rightarrow> None)"
| "wa_round p (Right v # es) w = map_option (\<lambda>(es', w''). (Right v # es', w'')) (wa_round p es w)"
| "wa_round p (Uninit # es) w = map_option (\<lambda>(es', w''). (Uninit # es', w'')) (wa_round p es w)"

definition wa_count :: "('f, 'a) Either list \<Rightarrow> nat" where
  "wa_count es = length (filter hasRight es)"

definition wa_inv :: "('f, 'a) when_all \<Rightarrow> bool" where
  "wa_inv wa \<longleftrightarrow> wa_finished wa = wa_count (wa_cases wa)"

lemma wa_count_simps [simp]:
  "wa_count [] = 0"
  "wa_count (xs @ ys) = wa_count xs + wa_count ys"
  "wa_count (Left f # xs) = wa_count xs"
  "wa_count (Right v # xs) = Suc (wa_count xs)"
  "wa_count (Uninit # xs) = wa_count xs"
  by (simp_all add: wa_count_def hasRight_def)

lemma wa_loop_round:
  assumes "wa_round p es w = Some (es', w')" "fin = wa_count pre + wa_count es"
  shows "wa_loop moved p fin pre es w = wa_loop moved p (wa_count (pre @ es')) (pre @ es') [] w'"
  using assms
proof (induction es arbitrary: w pre fin es')
  case (Cons e es)
  have step: "wa_loop moved p fin' (pre @ [e1]) es w1 =
      wa_loop moved p (wa_count (pre @ es')) (pre @ es') [] w'"
    if "wa_round p es w1 = Some (es1, w')" "es' = e1 # es1" "fin' = wa_count (pre @ [e1]) + wa_count es"
    for fin' e1 es1 w1
    using Cons.IH [of w1 es1 fin' "pre @ [e1]"] that by simp
  show ?case
  proof (cases e)
    case (Left f)
    show ?thesis
    proof (cases "p f w" rule: member_call_cases)
      case (Returns t f' w1)
      then show ?thesis
        using Cons.prems Left step by (auto split: Try.splits option.splits)
    qed (use Cons.prems Left in auto)
  qed (use Cons.prems step in auto)
qed simp

lemma wa_count_all: "wa_count es \<ge> length es \<longleftrightarrow> (\<forall>e\<in>set es. hasRight e)"
proof -
  have "wa_count es \<le> length es"
    by (simp add: wa_count_def)
  then have "wa_count es \<ge> length es \<longleftrightarrow> length (filter hasRight es) = length es"
    unfolding wa_count_def by (metis le_antisym order_refl)
  then show ?thesis
    by (metis filter_True length_filter_less less_irrefl)
qed

text \<open>
  C14 --- \<open>whenAll(f1, ..., fn)\<close>.  The counter \<open>finished_\<close> is always the number of finished
  futures; so a poll in which no future fails completes exactly when every future has its
  value after this round, with the values in the order of the arguments, \<open>right()\<close> is
  never called on an unfinished element, and otherwise the poll is pending with the
  invariant kept.
\<close>

theorem static_whenAll_poll:
  assumes "wa_inv wa" "wa_round p (wa_cases wa) w = Some (es', w')"
  shows "if \<forall>e\<in>set es'. hasRight e
     then \<exists>vs wa'. map Right vs = es' \<and>
        StaticWhenAll_poll moved p wa w = Some (Ret (makePollReady vs), wa', w')
     else StaticWhenAll_poll moved p wa w =
            Some (Ret not_ready, \<lparr>wa_cases = es', wa_finished = wa_count es'\<rparr>, w') \<and>
          wa_inv \<lparr>wa_cases = es', wa_finished = wa_count es'\<rparr>"
proof -
  have poll: "StaticWhenAll_poll moved p wa w = wa_loop moved p (wa_count es') es' [] w'"
    using wa_loop_round [OF assms(2), of "wa_finished wa" "[]"] assms(1)
    by (simp add: StaticWhenAll_poll_def wa_inv_def)
  show ?thesis
  proof (cases "\<forall>e\<in>set es'. hasRight e")
    case True
    define vs where "vs = map (\<lambda>e. case e of Right v \<Rightarrow> v) es'"
    have "map Right vs = es'"
      using True unfolding vs_def by (induction es') (auto simp: hasRight_def split: Either.splits)
    moreover have "wa_unwrap es' = Ret vs"
      using True by (simp add: wa_unwrap_def vs_def)
    ultimately show ?thesis
      using True poll wa_count_all [of es'] by auto
  next
    case False
    then have "\<not> wa_count es' \<ge> length es'"
      by (simp add: wa_count_all)
    then show ?thesis
      unfolding poll if_not_P [OF False] by (simp add: wa_inv_def)
  qed
qed

theorem static_whenAll_poll_witness:
  "wa_inv (StaticWhenAll_new [3 :: nat, 0] :: (nat, nat) when_all) \<and>
   wa_round (\<lambda>n w. Some (Ret (if n = 0 then Value None else Value (Some n)), n, w + 1))
     (wa_cases (StaticWhenAll_new [3 :: nat, 0])) (0 :: nat) = Some ([Right 3, Left 0], 2) \<and>
   StaticWhenAll_poll id (\<lambda>n w. Some (Ret (if n = 0 then Value None else Value (Some n)), n, w + 1))
     (StaticWhenAll_new [3 :: nat, 0]) (0 :: nat) =
       Some (Ret not_ready, \<lparr>wa_cases = [Right 3, Left 0], wa_finished = 1\<rparr>, 2)"
proof -
  let ?p = "\<lambda>n w. Some (Ret (if n = 0 then Value None else Value (Some n)), n, w + (1 :: nat))"
  let ?wa = "StaticWhenAll_new [3 :: nat, 0] :: (nat, nat) when_all"
  have i: "wa_inv ?wa" by (simp add: wa_inv_def StaticWhenAll_new_def)
  have r: "wa_round ?p (wa_cases ?wa) 0 = Some ([Right 3, Left 0], 2)"
    by (simp add: StaticWhenAll_new_def)
  show ?thesis
    using static_whenAll_poll [OF i r, of id] i r by (simp add: hasRight_def)
qed

subsection \<open>What a loop computes\<close>

text \<open>The outcome of an iteration that ends the loop; a continue is \<open>None\<close>.\<close>

fun loop_stop :: "('b, 'st) Either Try outcome \<Rightarrow> 'b Try outcome option" where
  "loop_stop (Ret (Value (Left b))) = Some (Ret (Value b))"
| "loop_stop (Ret (Value (Right s))) = None"
| "loop_stop (Ret (Value Uninit)) = Some (Throw EitherEmptyException)"
| "loop_stop (Ret (Exception e)) = Some (Ret (Exception e))"
| "loop_stop (Ret Nothing) = Some (Throw UsingUninitializedTry)"
| "loop_stop (Throw e) = Some (Throw e)"
| "loop_stop Abort = Some Abort"

text \<open>
  The loop as iteration: call the body on the loop state, drive the future it returns, and
  stop or go on with the next state.
\<close>

inductive loop_run ::
  "('st, 'w, 'f) callback \<Rightarrow> ('f, 'w, ('b, 'st) Either) poller \<Rightarrow> ('w \<Rightarrow> 'w \<Rightarrow> bool)
   \<Rightarrow> 'st \<Rightarrow> 'w \<Rightarrow> 'b Try outcome \<Rightarrow> 'w \<Rightarrow> bool"
  for func p env where
  stop: "func s w = Some (Ret f, w1) \<Longrightarrow> yields p env f w1 x w2 \<Longrightarrow> loop_stop x = Some r
    \<Longrightarrow> loop_run func p env s w r w2"
| continue: "func s w = Some (Ret f, w1) \<Longrightarrow> yields p env f w1 (Ret (Value (Right s'))) w2
    \<Longrightarrow> loop_run func p env s' w2 r w' \<Longrightarrow> loop_run func p env s w r w'"
| throws: "func s w = Some (Throw e, w') \<Longrightarrow> loop_run func p env s w (Throw e) w'"
| aborts: "func s w = Some (Abort, w') \<Longrightarrow> loop_run func p env s w Abort w'"

text \<open>The same, from inside an iteration whose future is \<open>f\<close>.\<close>

definition loop_after ::
  "('st, 'w, 'f) callback \<Rightarrow> ('f, 'w, ('b, 'st) Either) poller \<Rightarrow> ('w \<Rightarrow> 'w \<Rightarrow> bool)
   \<Rightarrow> 'f \<Rightarrow> 'w \<Rightarrow> 'b Try outcome \<Rightarrow> 'w \<Rightarrow> bool" where
  "loop_after func p env f w r w' \<longleftrightarrow>
     (\<exists>x w1. yields p env f w x w1 \<and>
        (loop_stop x = Some r \<and> w' = w1 \<or>
         (\<exists>s. x = Ret (Value (Right s)) \<and> loop_run func p env s w1 r w')))"

lemma loop_run_iff:
  "loop_run func p env s w r w' \<longleftrightarrow>
     (case func s w of
        None \<Rightarrow> False
      | Some (Ret f, w1) \<Rightarrow> loop_after func p env f w1 r w'
      | Some (Throw e, w1) \<Rightarrow> r = Throw e \<and> w' = w1
      | Some (Abort, w1) \<Rightarrow> r = Abort \<and> w' = w1)"
    (is "?L \<longleftrightarrow> ?R")
proof
  show "?L \<Longrightarrow> ?R"
    by (erule loop_run.cases) (auto simp: loop_after_def)
  show "?R \<Longrightarrow> ?L"
    by (cases "func s w" rule: callback_cases) (auto simp: loop_after_def intro: loop_run.intros)
qed

lemma loop_after_final:
  "p f w = Some (x, f', w1) \<Longrightarrow> final x = Some y \<Longrightarrow>
   loop_after func p env f w r w' \<longleftrightarrow>
     loop_stop y = Some r \<and> w' = w1 \<or> (\<exists>s. y = Ret (Value (Right s)) \<and> loop_run func p env s w1 r w')"
  by (auto simp: loop_after_def yields_unfold [of p env f] completes_def)

lemma loop_after_pending:
  "p f w = Some (Ret (Value None), f', w1) \<Longrightarrow>
   loop_after func p env f w r w' \<longleftrightarrow> (\<exists>w2. env w1 w2 \<and> loop_after func p env f' w2 r w')"
  by (auto simp: loop_after_def yields_unfold [of p env f])

text \<open>One poll of the loop: a final outcome is one of the iteration, a pending one is inside it.\<close>

definition loop_poll_ok ::
  "('st, 'w, 'f) callback \<Rightarrow> ('f, 'w, ('b, 'st) Either) poller \<Rightarrow> ('w \<Rightarrow> 'w \<Rightarrow> bool) \<Rightarrow> 'st \<Rightarrow> 'f \<Rightarrow> 'w
   \<Rightarrow> ('b poll outcome \<times> ('st, 'f) loop_fn \<times> 'w) \<Rightarrow> bool" where
  "loop_poll_ok func p env init f w y \<longleftrightarrow>
     (\<forall>r. final (fst y) = Some r \<longrightarrow> loop_after func p env f w r (snd (snd y))) \<and>
     (final (fst y) = None \<longrightarrow>
        (\<exists>f1. fst (snd y) = \<lparr>lf_init = init, lf_fut = Some f1\<rparr> \<and>
           (\<forall>w2 r w'. env (snd (snd y)) w2 \<longrightarrow> loop_after func p env f1 w2 r w'
              \<longrightarrow> loop_after func p env f w r w')))"

lemma loop_fn_loop_ok:
  assumes "loop_fn_loop func p init f w = Some y"
  shows "loop_poll_ok func p env init f w y"
proof (rule loop_fn_loop.raw_induct [where P = "\<lambda>func p init f w y. loop_poll_ok func p env init f w y",
      OF _ assms], goal_cases)
  case (1 rec func p init f w y)
  show ?case
  proof (cases "p f w" rule: member_call_cases)
    case (Returns t f' w1)
    note body1 = 1(2)
    consider "t = Value None" | s where "t = Value (Some (Right s))" | r where "final (Ret t) = Some r"
        "\<And>s. r \<noteq> Ret (Value (Right s))"
      by (cases t rule: Try.exhaust; cases "t = Value None") (force intro: Either.exhaust)+
    then show ?thesis
    proof cases
      case pend: 1
      then show ?thesis
        using body1 Returns by (auto simp: loop_poll_ok_def loop_after_pending)
    next
      case (2 s)
      then have after: "loop_after func p env f w r w' \<longleftrightarrow> loop_run func p env s w1 r w'" for r w'
        using Returns loop_after_final [of p f w "Ret t" f' w1 "Ret (Value (Right s))"] by simp
      have body: "run_callback (func s w1) \<lparr>lf_init = init, lf_fut = Some f'\<rparr>
          (\<lambda>f'' w''. rec func p init f'' w'') = Some y"
        using body1 Returns 2 by simp
      show ?thesis
      proof (cases "func s w1" rule: callback_cases)
        case (Returns f'' w'')
        then have "loop_poll_ok func p env init f'' w'' y"
          using body 1(1) by simp
        then show ?thesis
          using Returns by (simp add: loop_poll_ok_def after loop_run_iff [of func p env s])
      qed (use body in \<open>auto simp: loop_poll_ok_def after loop_run_iff [of func p env s]\<close>)
    next
      case (3 r)
      then have "loop_stop r = final (fst y)" "final (fst y) \<noteq> None" "snd (snd y) = w1"
        using body1 Returns
        by (cases t; auto simp: makePollReady_def split: option.splits Either.splits)+
      then show ?thesis
        using 3(1) Returns by (auto simp: loop_poll_ok_def loop_after_final)
    qed
  qed (use 1(2) in \<open>auto simp: loop_poll_ok_def loop_after_final\<close>)
qed


lemma yields_loop_fn_step:
  "yields (LoopFn_poll moved func p) env \<lparr>lf_init = i, lf_fut = Some f\<rparr> w r w' \<longleftrightarrow>
   (\<exists>x w1. yields p env f w x w1 \<and>
      (loop_stop x = Some r \<and> w' = w1 \<or>
       (\<exists>s. x = Ret (Value (Right s)) \<and>
          (case func s w1 of
             None \<Rightarrow> False
           | Some (Ret f', w2) \<Rightarrow>
               yields (LoopFn_poll moved func p) env \<lparr>lf_init = i, lf_fut = Some f'\<rparr> w2 r w'
           | Some (Throw e, w2) \<Rightarrow> r = Throw e \<and> w' = w2
           | Some (Abort, w2) \<Rightarrow> r = Abort \<and> w' = w2))))"
proof -
  let ?P = "LoopFn_poll moved func p"
  let ?emb = "\<lambda>f. \<lparr>lf_init = i, lf_fut = Some f\<rparr>"
  let ?k = "\<lambda>y f1 w1. case y of
      Ret (Value (Right s)) \<Rightarrow>
        run_callback (func s w1) (?emb f1) (\<lambda>f' w2. loop_fn_loop func p i f' w2)
    | Ret (Value (Left b)) \<Rightarrow> Some (Ret (makePollReady b), \<lparr>lf_init = i, lf_fut = None\<rparr>, w1)
    | _ \<Rightarrow> Some (unfinal (the (loop_stop y)), ?emb f1, w1)"
  have poll: "?P (?emb f) w = loop_fn_loop func p i f w" for f w
    by (simp add: LoopFn_poll_def)
  have "yields ?P env (?emb f) w r w' \<longleftrightarrow>
      (\<exists>y f1 w1. resolves p env f w y f1 w1 \<and> completes ?P env (?k y f1 w1) r w')"
    by (rule yields_seq, unfold poll, subst loop_fn_loop.simps)
      (auto simp: call_def split: option.split outcome.split Try.split Either.split)
  moreover have "completes ?P env (?k y f1 w1) r w' \<longleftrightarrow>
      loop_stop y = Some r \<and> w' = w1 \<or>
       (\<exists>s. y = Ret (Value (Right s)) \<and>
          (case func s w1 of
             None \<Rightarrow> False
           | Some (Ret f', w2) \<Rightarrow> yields ?P env (?emb f') w2 r w'
           | Some (Throw e, w2) \<Rightarrow> r = Throw e \<and> w' = w2
           | Some (Abort, w2) \<Rightarrow> r = Abort \<and> w' = w2))" for y f1 w1
  proof (cases y rule: loop_stop.cases)
    case (2 s)
    then show ?thesis
      by (cases "func s w1" rule: callback_cases) (simp_all add: yields_unfold [of ?P] poll)
  qed (auto simp: makePollReady_def)
  ultimately show ?thesis
    by (auto simp: yields_def [of p])
qed

lemma yields_loop_fn:
  "yields (LoopFn_poll moved func p) env \<lparr>lf_init = i, lf_fut = Some f\<rparr> w r w' \<longleftrightarrow>
   loop_after func p env f w r w'"
proof
  assume "loop_after func p env f w r w'"
  moreover have "case func s w of
        None \<Rightarrow> False
      | Some (Ret f', w2) \<Rightarrow>
          yields (LoopFn_poll moved func p) env \<lparr>lf_init = i, lf_fut = Some f'\<rparr> w2 r w'
      | Some (Throw e, w2) \<Rightarrow> r = Throw e \<and> w' = w2
      | Some (Abort, w2) \<Rightarrow> r = Abort \<and> w' = w2"
    if "loop_run func p env s w r w'" for s w r w'
    using that
  proof (induction rule: loop_run.induct)
    case (stop s w f w1 x w2 r)
    then have "yields (LoopFn_poll moved func p) env \<lparr>lf_init = i, lf_fut = Some f\<rparr> w1 r w2"
      by (subst yields_loop_fn_step) blast
    then show ?case using stop.hyps(1) by simp
  next
    case (continue s w f w1 s' w2 r w')
    then have "yields (LoopFn_poll moved func p) env \<lparr>lf_init = i, lf_fut = Some f\<rparr> w1 r w'"
      by (subst yields_loop_fn_step) blast
    then show ?case using continue.hyps(1) by simp
  qed simp_all
  ultimately show "yields (LoopFn_poll moved func p) env \<lparr>lf_init = i, lf_fut = Some f\<rparr> w r w'"
    unfolding loop_after_def by (subst yields_loop_fn_step) blast
next
  assume "yields (LoopFn_poll moved func p) env \<lparr>lf_init = i, lf_fut = Some f\<rparr> w r w'"
  then obtain l' where "resolves (LoopFn_poll moved func p) env \<lparr>lf_init = i, lf_fut = Some f\<rparr> w r l' w'"
    by (auto simp: yields_def)
  then show "loop_after func p env f w r w'"
  proof (induction "\<lparr>lf_init = i, lf_fut = Some f\<rparr>" w r l' w' arbitrary: f rule: resolves.induct)
    case (stop w x s' w' r)
    then have "loop_poll_ok func p env i f w (x, s', w')"
      by (intro loop_fn_loop_ok) (simp add: LoopFn_poll_def)
    then show ?case
      using stop.hyps(2) by (simp add: loop_poll_ok_def)
  next
    case (again w x s1 w1 w2 r s' w')
    then have "loop_poll_ok func p env i f w (x, s1, w1)"
      by (intro loop_fn_loop_ok) (simp add: LoopFn_poll_def)
    then show ?case
      using again.hyps(2,3,5) by (auto simp: loop_poll_ok_def)
  qed
qed

text \<open>
  C15 --- \<open>makeLoop\<close> is iteration.  The loop future ends with \<open>r\<close> exactly when iterating its
  body does: call the body, drive its future, stop at a break, an exception or an escape,
  and go on with the next state at a continue, where consecutive iterations may happen in
  the same poll.
\<close>

theorem loop_fn_iterates:
  "yields (LoopFn_poll moved func p) env (LoopFn_new s) w r w' \<longleftrightarrow> loop_run func p env s w r w'"
proof -
  let ?P = "LoopFn_poll moved func p"
  have "completes ?P env (loop_fn_loop func p i f w1) r w' \<longleftrightarrow> loop_after func p env f w1 r w'"
    for i f w1
    using yields_loop_fn [of moved func p env i f w1 r w']
    by (simp add: yields_unfold [of ?P env "\<lparr>lf_init = i, lf_fut = Some f\<rparr>"]
        LoopFn_poll_def [of _ _ _ "\<lparr>lf_init = i, lf_fut = Some f\<rparr>"])
  then show ?thesis
    by (cases "func s w" rule: callback_cases)
      (simp_all add: LoopFn_new_def yields_unfold [of ?P env "\<lparr>lf_init = s, lf_fut = None\<rparr>"]
        loop_run_iff LoopFn_poll_def [of _ _ _ "\<lparr>lf_init = s, lf_fut = None\<rparr>"])
qed

subsection \<open>Wake-ups of SharedFuture\<close>

text \<open>
  A run of one shared state with any number of tasks: a task polls it inside its own task
  context, a handle is dropped, or something else happens to the world.  The set is the
  tasks whose last poll was pending and that were not unparked since.  The shared future's
  own \<open>poll\<close> may unpark tasks, so it only extends the log.
\<close>

definition woken :: "'z task_world_scheme \<Rightarrow> 'z task_world_scheme \<Rightarrow> nat set" where
  "woken w w' = set (drop (length (tw_unparked w)) (tw_unparked w'))"

definition extends_log :: "'z task_world_scheme \<Rightarrow> 'z task_world_scheme \<Rightarrow> bool" where
  "extends_log w w' \<longleftrightarrow> (\<exists>l. tw_unparked w' = tw_unparked w @ l)"

definition task_safe :: "('s, 'z task_world_scheme, 'a) poller \<Rightarrow> bool" where
  "task_safe p \<longleftrightarrow> (\<forall>f w r f' w'. p f w = Some (r, f', w') \<longrightarrow>
     tw_current w' = tw_current w \<and> extends_log w w')"

inductive shared_run ::
  "('s, 'z task_world_scheme, 'a) poller \<Rightarrow> ('s, 'a) shared \<Rightarrow> 'z task_world_scheme \<Rightarrow> nat set \<Rightarrow> bool"
  for p where
  new: "shared_run p (SharedFuture_new f) w {}"
| poll: "shared_run p sh w P \<Longrightarrow> WithGuard t (SharedFuture_poll p) sh w = Some (r, sh', w')
    \<Longrightarrow> shared_run p sh' w' ((P - woken w w') \<union> (if r = Ret not_ready then {t} else {}))"
| dropped: "shared_run p sh w P \<Longrightarrow> SharedFuture_drop sh w = (sh', w')
    \<Longrightarrow> shared_run p sh' w' (P - woken w w')"
| other: "shared_run p sh w P \<Longrightarrow> extends_log w w' \<Longrightarrow> shared_run p sh w' (P - woken w w')"

lemma unparked_fold [simp]:
  "tw_unparked (fold Task_unpark ts w) = tw_unparked w @ ts"
  "tw_current (fold Task_unpark ts w) = tw_current w"
  by (induction ts arbitrary: w) (simp_all add: Task_unpark_def)

lemma woken_all:
  assumes "extends_log w w1"
  shows "set ts \<subseteq> woken w (fold Task_unpark ts w1)"
  using assms by (auto simp: woken_def extends_log_def)

lemma woken_guard [simp]: "woken w (w'\<lparr>tw_current := c\<rparr>) = woken w w'"
  "woken (w\<lparr>tw_current := c\<rparr>) w' = woken w w'"
  by (simp_all add: woken_def)

lemma SharedFuture_poll_waiters:
  assumes "SharedFuture_poll p sh w = Some (r, sh', w')" "task_safe p" "tw_current w = Some t"
    "sh_result sh = None"
  shows "(sh_result sh' = None \<and>
      sh_waiters sh' = sh_waiters sh @ (if r = Ret not_ready then [t] else [])) \<or>
    (sh_result sh' \<noteq> None \<and> sh_result sh' \<noteq> Some not_ready \<and> sh_waiters sh' = [] \<and>
      r \<noteq> Ret not_ready \<and>
      set (sh_waiters sh) \<subseteq> woken w w')"
proof (cases "sh_impl sh")
  case None
  then show ?thesis
    using assms by (auto simp: SharedFuture_poll_def)
next
  case (Some f)
  show ?thesis
  proof (cases "p f w" rule: member_call_cases)
    case (Returns x f' w1)
    have safe: "tw_current w1 = Some t" "extends_log w w1"
      using assms(2,3) Returns unfolding task_safe_def by metis+
    show ?thesis
      using assms Some Returns safe woken_all [OF safe(2)]
      by (cases x) (auto simp: SharedFuture_poll_def Let_def shared_park_def shared_unpark_all_def
          split: option.splits)
  qed (use assms Some in \<open>auto simp: SharedFuture_poll_def\<close>)
qed

lemma shared_run_inv:
  assumes "shared_run p sh w P" "task_safe p"
  shows "P \<subseteq> set (sh_waiters sh) \<and> (sh_result sh \<noteq> None \<longrightarrow> P = {}) \<and> sh_result sh \<noteq> Some not_ready"
  using assms
proof (induction rule: shared_run.induct)
  case (poll sh w P t r sh' w')
  then obtain w1 where p: "SharedFuture_poll p sh (w\<lparr>tw_current := Some t\<rparr>) = Some (r, sh', w1)"
      and w': "woken w w' = woken w w1"
    by (auto simp: WithGuard_def split: option.splits)
  show ?case
  proof (cases "sh_result sh")
    case None
    show ?thesis
      using SharedFuture_poll_waiters [OF p poll.prems _ None, of t] poll w' by auto
  next
    case (Some x)
    then show ?thesis
      using p poll by (auto simp: SharedFuture_poll_def)
  qed
next
  case (dropped sh w P sh' w')
  then show ?case
    using woken_all [of w w "sh_waiters sh"]
    by (auto simp: SharedFuture_drop_def shared_unpark_all_def extends_log_def split: if_splits)
qed (auto simp: SharedFuture_new_def)

text \<open>
  C16 --- \<open>shared()\<close> loses no wake-up.  In every run, each task that is waiting (its last poll
  was pending and it was not unparked since) is in the list of waiters; and once the result
  is there, no task is waiting.
\<close>

theorem shared_no_lost_waiter:
  assumes "shared_run p sh w P" "task_safe p"
  shows "P \<subseteq> set (sh_waiters sh) \<and> (sh_result sh \<noteq> None \<longrightarrow> P = {})"
  using shared_run_inv [OF assms] by blast

theorem shared_no_lost_waiter_witness:
  "task_safe (\<lambda>n w. Some (Ret (if n = 0 then Value None else Value (Some n)), Suc n, w
      :: task_world)) \<and>
   shared_run (\<lambda>n w. Some (Ret (if n = 0 then Value None else Value (Some n)), Suc n, w))
     \<lparr>sh_impl = Some 1, sh_waiters = [7], sh_result = None\<rparr>
     \<lparr>tw_current = None, tw_unparked = [], tw_next_id = 8\<rparr> {7} \<and>
   {7} \<subseteq> set (sh_waiters \<lparr>sh_impl = Some (1 :: nat), sh_waiters = [7], sh_result = None :: nat poll option\<rparr>)"
proof -
  let ?p = "\<lambda>n w. Some (Ret (if n = 0 then Value None else Value (Some n)), Suc n, w :: task_world)"
  let ?w = "\<lparr>tw_current = None, tw_unparked = [], tw_next_id = 8\<rparr>"
  let ?sh = "\<lparr>sh_impl = Some 1, sh_waiters = [7], sh_result = None\<rparr>"
  have safe: "task_safe ?p"
    by (simp add: task_safe_def extends_log_def)
  have "WithGuard 7 (SharedFuture_poll ?p) (SharedFuture_new 0) ?w = Some (Ret not_ready, ?sh, ?w)"
    by (simp add: WithGuard_def SharedFuture_poll_def SharedFuture_new_def shared_park_def Let_def)
  then have run: "shared_run ?p ?sh ?w {7}"
    using shared_run.poll [OF shared_run.new [of ?p 0 ?w], of 7 "Ret not_ready" ?sh ?w] by simp
  show ?thesis
    using shared_no_lost_waiter [OF run safe] safe run by blast
qed

end
