(* ===== verification/Unpark_Mutex.thy ===== *)
theory Unpark_Mutex
  imports Tasks
begin

text \<open>
  \<open>UnparkMutex.h\<close> and \<open>FutureSpawnRun\<close> of \<open>Future.h\<close>: how a spawned future and the
  threads that wake it share one task object.  The operations are functions on the mutex;
  the thread interleavings are the step relation \<open>um_step\<close>, in which each step is one
  atomic access of the code, with any number of executor threads and of notifiers.

  The invariant says where the one task object is at every moment.  From it: at most one
  thread polls, the assertion of \<open>wait\<close> holds, a notifier that wins the race always gets
  the task object, and no wake-up is lost.
\<close>

subsection \<open>The operations\<close>

datatype um_status = kWaiting | kPolling | kRepoll | kComplete

record 'd unpark_mutex =
  um_status :: um_status
  um_data :: "'d option"

definition UnparkMutex_new :: "'d unpark_mutex" where
  "UnparkMutex_new = \<lparr>um_status = kWaiting, um_data = None\<rparr>"

text \<open>\<open>compare_exchange_strong\<close>: success, the value of \<open>expected\<close> afterwards, the mutex.\<close>

definition um_cas ::
  "um_status \<Rightarrow> um_status \<Rightarrow> 'd unpark_mutex \<Rightarrow> bool \<times> um_status \<times> 'd unpark_mutex" where
  "um_cas expected desired m =
     (if um_status m = expected then (True, expected, m\<lparr>um_status := desired\<rparr>)
      else (False, um_status m, m))"

definition um_start_poll :: "'d unpark_mutex \<Rightarrow> 'd unpark_mutex" where
  "um_start_poll m = m\<lparr>um_status := kPolling\<rparr>"

definition um_take_data :: "'d unpark_mutex \<Rightarrow> 'd option \<times> 'd unpark_mutex" where
  "um_take_data m = (um_data m, m\<lparr>um_data := None\<rparr>)"

definition um_wait :: "'d \<Rightarrow> 'd unpark_mutex \<Rightarrow> 'd option outcome \<times> 'd unpark_mutex" where
  "um_wait d m =
     (let m0 = m\<lparr>um_data := Some d\<rparr>;
          (ok, expected, m1) = um_cas kPolling kWaiting m0 in
      if ok then (Ret None, m1)
      else if expected \<noteq> kRepoll then (Abort, m1)
      else (let (r, m2) = um_take_data (m1\<lparr>um_status := kPolling\<rparr>) in (Ret r, m2)))"

definition um_complete :: "'d unpark_mutex \<Rightarrow> 'd unpark_mutex" where
  "um_complete m = m\<lparr>um_status := kComplete\<rparr>"

text \<open>
  The loop of \<open>notify\<close>: \<open>status\<close> is the local copy.  Without interference it runs at most
  twice; a turn that finds another value goes on with that value.
\<close>

function um_notify_loop :: "um_status \<Rightarrow> 'd unpark_mutex \<Rightarrow> 'd option \<times> 'd unpark_mutex" where
  "um_notify_loop status m =
     (case status of
        kWaiting \<Rightarrow>
          (let (ok, expected, m1) = um_cas kWaiting kPolling m in
           if ok then um_take_data m1 else um_notify_loop expected m1)
      | kPolling \<Rightarrow>
          (let (ok, expected, m1) = um_cas kPolling kRepoll m in
           if ok then (None, m1) else um_notify_loop expected m1)
      | _ \<Rightarrow> (None, m))"
  by pat_completeness auto
termination
  by (relation "measure (\<lambda>(status, m). if status = um_status m then 0 else 1)")
    (auto simp: um_cas_def split: if_splits)

definition um_notify :: "'d unpark_mutex \<Rightarrow> 'd option \<times> 'd unpark_mutex" where
  "um_notify m = um_notify_loop (um_status m) m"

lemma um_notify_cases:
  "um_notify m =
     (case um_status m of
        kWaiting \<Rightarrow> (um_data m, \<lparr>um_status = kPolling, um_data = None, \<dots> = unpark_mutex.more m\<rparr>)
      | kPolling \<Rightarrow> (None, m\<lparr>um_status := kRepoll\<rparr>)
      | _ \<Rightarrow> (None, m))"
  by (simp add: um_notify_def um_cas_def um_take_data_def split: um_status.split)

subsection \<open>FutureSpawnRun on one thread\<close>

text \<open>
  The world holds the mutex of the task and the executor's queue, on which \<open>execute\<close>
  pushes; the polled future may call \<open>Inner_unpark\<close> on it.
\<close>

record 's run_world = task_world +
  rw_mutex :: "'s future_spawn unpark_mutex"
  rw_queue :: "'s future_spawn list"

definition Inner_unpark :: "('s, 'z) run_world_scheme \<Rightarrow> ('s, 'z) run_world_scheme" where
  "Inner_unpark w =
     (let (res, m) = um_notify (rw_mutex w);
          w1 = w\<lparr>rw_mutex := m\<rparr> in
      case res of
        None \<Rightarrow> w1
      | Some task \<Rightarrow> w1\<lparr>rw_queue := rw_queue w1 @ [task]\<rparr>)"

partial_function (option) run_loop ::
  "('s, ('s, 'z) run_world_scheme, unit) poller \<Rightarrow> 's future_spawn \<Rightarrow> ('s, 'z) run_world_scheme
   \<Rightarrow> ('s future_spawn, ('s, 'z) run_world_scheme, unit) member_call" where
  "run_loop p fs w =
     call (poll_future p fs w) id
       (\<lambda>r fs' w'.
          case r of
            Exception e \<Rightarrow>
              Some (if is_cancelled e then Ret () else Throw e, fs',
                    w'\<lparr>rw_mutex := um_complete (rw_mutex w')\<rparr>)
          | Nothing \<Rightarrow> Some (Throw UsingUninitializedTry, fs', w')
          | Value (Some _) \<Rightarrow> Some (Ret (), fs', w'\<lparr>rw_mutex := um_complete (rw_mutex w')\<rparr>)
          | Value None \<Rightarrow>
              (case um_wait fs' (rw_mutex w') of
                 (Ret None, m) \<Rightarrow> Some (Ret (), fs', w'\<lparr>rw_mutex := m\<rparr>)
               | (Ret (Some fs''), m) \<Rightarrow> run_loop p fs'' (w'\<lparr>rw_mutex := m\<rparr>)
               | (Throw e, m) \<Rightarrow> Some (Throw e, fs', w'\<lparr>rw_mutex := m\<rparr>)
               | (Abort, m) \<Rightarrow> Some (Abort, fs', w'\<lparr>rw_mutex := m\<rparr>)))"

definition FutureSpawnRun_run ::
  "('s, ('s, 'z) run_world_scheme, unit) poller \<Rightarrow> 's future_spawn \<Rightarrow> ('s, 'z) run_world_scheme
   \<Rightarrow> ('s future_spawn, ('s, 'z) run_world_scheme, unit) member_call" where
  "FutureSpawnRun_run p fs w = run_loop p fs (w\<lparr>rw_mutex := um_start_poll (rw_mutex w)\<rparr>)"

subsection \<open>Interleavings\<close>

text \<open>
  Program counters of an executor thread inside \<open>FutureSpawnRun::run\<close>: \<open>RStart\<close> before
  \<open>start_poll\<close>, \<open>RBegin\<close> before \<open>poll_future\<close>, \<open>RPoll\<close> inside it, \<open>RStore\<close>, \<open>RCas\<close>,
  \<open>RRetryStore\<close>, \<open>RRetryTake\<close> at the statements of \<open>wait\<close>; \<open>RFail\<close> is a failed assertion and
  \<open>RLost\<close> a \<open>wait\<close> that returns without the task after leaving it unscheduled.
  Of a notifier inside \<open>Inner::unpark\<close>: \<open>NLoaded s\<close> at the head of the loop with the local
  status \<open>s\<close>, \<open>NTake\<close> after winning the race, \<open>NHas\<close> before \<open>execute\<close>; \<open>NLost\<close> is a winner that
  found no task.
\<close>

datatype rpc = RIdle | RStart | RBegin | RPoll | RStore | RCas | RRetryStore | RRetryTake | RFail | RLost
datatype npc = NIdle | NLoaded um_status | NTake | NHas | NLost

text \<open>
  The task object is a unit token: what matters is where it is.  \<open>us_queue\<close> counts the
  entries of the executor queue, \<open>us_started\<close> says that a poll has begun (before it nobody
  holds a \<open>Task\<close> to unpark), \<open>us_wake\<close> that a notification took effect after the last poll
  began.
\<close>

record um_sys =
  us_mutex :: "unit unpark_mutex"
  us_queue :: nat
  us_run :: "nat \<Rightarrow> rpc"
  us_notif :: "nat \<Rightarrow> npc"
  us_started :: bool
  us_wake :: bool

definition um_init :: um_sys where
  "um_init = \<lparr>us_mutex = UnparkMutex_new, us_queue = 1, us_run = (\<lambda>_. RIdle),
     us_notif = (\<lambda>_. NIdle), us_started = False, us_wake = False\<rparr>"

definition set_run :: "nat \<Rightarrow> rpc \<Rightarrow> um_sys \<Rightarrow> um_sys" where
  "set_run i pc s = s\<lparr>us_run := (us_run s)(i := pc)\<rparr>"

definition set_notif :: "nat \<Rightarrow> npc \<Rightarrow> um_sys \<Rightarrow> um_sys" where
  "set_notif j pc s = s\<lparr>us_notif := (us_notif s)(j := pc)\<rparr>"

text \<open>What a notifier does with a value of the status it has just read.\<close>

definition notif_saw :: "nat \<Rightarrow> um_status \<Rightarrow> um_sys \<Rightarrow> um_sys" where
  "notif_saw j st s =
     (if st = kWaiting \<or> st = kPolling then set_notif j (NLoaded st) s
      else set_notif j NIdle (s\<lparr>us_wake := True\<rparr>))"

text \<open>One atomic access of executor thread \<open>i\<close>.\<close>

definition run_step :: "nat \<Rightarrow> um_sys \<Rightarrow> um_sys set" where
  "run_step i s =
     (case us_run s i of
        RIdle \<Rightarrow> (if us_queue s > 0 then {set_run i RStart (s\<lparr>us_queue := us_queue s - 1\<rparr>)} else {})
      | RStart \<Rightarrow> {set_run i RBegin (s\<lparr>us_mutex := um_start_poll (us_mutex s)\<rparr>)}
      | RBegin \<Rightarrow> {set_run i RPoll (s\<lparr>us_started := True, us_wake := False\<rparr>)}
      | RPoll \<Rightarrow> {set_run i RIdle (s\<lparr>us_mutex := um_complete (us_mutex s)\<rparr>), set_run i RStore s}
      | RStore \<Rightarrow> {set_run i RCas (s\<lparr>us_mutex := (us_mutex s)\<lparr>um_data := Some ()\<rparr>\<rparr>)}
      | RCas \<Rightarrow>
          (let (ok, expected, m) = um_cas kPolling kWaiting (us_mutex s) in
           {set_run i (if ok then RIdle else if expected = kRepoll then RRetryStore else RFail)
              (s\<lparr>us_mutex := m\<rparr>)})
      | RRetryStore \<Rightarrow> {set_run i RRetryTake (s\<lparr>us_mutex := (us_mutex s)\<lparr>um_status := kPolling\<rparr>\<rparr>)}
      | RRetryTake \<Rightarrow>
          (let (res, m) = um_take_data (us_mutex s) in
           {set_run i (if res = None then RLost else RBegin) (s\<lparr>us_mutex := m\<rparr>)})
      | _ \<Rightarrow> {})"

text \<open>One atomic access of notifier \<open>j\<close>.\<close>

definition notif_step :: "nat \<Rightarrow> um_sys \<Rightarrow> um_sys set" where
  "notif_step j s =
     (case us_notif s j of
        NIdle \<Rightarrow> (if us_started s then {notif_saw j (um_status (us_mutex s)) s} else {})
      | NLoaded st \<Rightarrow>
          (let desired = (if st = kWaiting then kPolling else kRepoll);
               (ok, expected, m) = um_cas st desired (us_mutex s) in
           if ok then {set_notif j (if st = kWaiting then NTake else NIdle)
                         (s\<lparr>us_mutex := m, us_wake := True\<rparr>)}
           else {notif_saw j expected s})
      | NTake \<Rightarrow>
          (let (res, m) = um_take_data (us_mutex s) in
           {set_notif j (if res = None then NLost else NHas) (s\<lparr>us_mutex := m\<rparr>)})
      | NHas \<Rightarrow> {set_notif j NIdle (s\<lparr>us_queue := us_queue s + 1\<rparr>)}
      | NLost \<Rightarrow> {})"

inductive um_reach :: "um_sys \<Rightarrow> bool" where
  init: "um_reach um_init"
| run: "um_reach s \<Longrightarrow> s' \<in> run_step i s \<Longrightarrow> um_reach s'"
| notify: "um_reach s \<Longrightarrow> s' \<in> notif_step j s \<Longrightarrow> um_reach s'"

text \<open>Where the task object is.\<close>

datatype um_loc = InQueue | AtRunner nat | Parked | AtNotifier nat | Gone

definition others_idle :: "um_loc \<Rightarrow> um_sys \<Rightarrow> bool" where
  "others_idle l s \<longleftrightarrow>
     (\<forall>i. l \<noteq> AtRunner i \<longrightarrow> us_run s i = RIdle) \<and>
     (\<forall>j. l \<noteq> AtNotifier j \<longrightarrow> us_notif s j \<in> {NIdle, NLoaded kWaiting, NLoaded kPolling}) \<and>
     (\<not> us_started s \<longrightarrow> (\<forall>j. us_notif s j = NIdle))"

fun loc_ok :: "um_loc \<Rightarrow> um_sys \<Rightarrow> bool" where
  "loc_ok InQueue s \<longleftrightarrow> us_queue s = 1 \<and> um_data (us_mutex s) = None \<and>
     (us_started s \<longrightarrow> um_status (us_mutex s) \<in> {kPolling, kRepoll})"
| "loc_ok (AtRunner i) s \<longleftrightarrow> us_queue s = 0 \<and>
     (case us_run s i of
        RStart \<Rightarrow> um_data (us_mutex s) = None \<and>
          (us_started s \<longrightarrow> um_status (us_mutex s) \<in> {kPolling, kRepoll})
      | RBegin \<Rightarrow> um_data (us_mutex s) = None \<and> um_status (us_mutex s) \<in> {kPolling, kRepoll}
      | RPoll \<Rightarrow> um_data (us_mutex s) = None \<and> us_started s \<and>
          (us_wake s \<longrightarrow> um_status (us_mutex s) = kRepoll) \<and>
          um_status (us_mutex s) \<in> {kPolling, kRepoll}
      | RStore \<Rightarrow> um_data (us_mutex s) = None \<and> us_started s \<and>
          (us_wake s \<longrightarrow> um_status (us_mutex s) = kRepoll) \<and>
          um_status (us_mutex s) \<in> {kPolling, kRepoll}
      | RCas \<Rightarrow> um_data (us_mutex s) = Some () \<and> us_started s \<and>
          (us_wake s \<longrightarrow> um_status (us_mutex s) = kRepoll) \<and>
          um_status (us_mutex s) \<in> {kPolling, kRepoll}
      | RRetryStore \<Rightarrow> um_data (us_mutex s) = Some () \<and> us_started s \<and> um_status (us_mutex s) = kRepoll
      | RRetryTake \<Rightarrow> um_data (us_mutex s) = Some () \<and> us_started s \<and>
          um_status (us_mutex s) \<in> {kPolling, kRepoll}
      | _ \<Rightarrow> False)"
| "loc_ok Parked s \<longleftrightarrow> us_queue s = 0 \<and> um_data (us_mutex s) = Some () \<and>
     um_status (us_mutex s) = kWaiting \<and> us_started s \<and> \<not> us_wake s"
| "loc_ok (AtNotifier j) s \<longleftrightarrow> us_queue s = 0 \<and> us_started s \<and>
     um_status (us_mutex s) \<in> {kPolling, kRepoll} \<and>
     (case us_notif s j of
        NTake \<Rightarrow> um_data (us_mutex s) = Some ()
      | NHas \<Rightarrow> um_data (us_mutex s) = None
      | _ \<Rightarrow> False)"
| "loc_ok Gone s \<longleftrightarrow> us_queue s = 0 \<and> um_data (us_mutex s) = None \<and> us_started s \<and>
     um_status (us_mutex s) = kComplete"

definition um_inv :: "um_sys \<Rightarrow> bool" where
  "um_inv s \<longleftrightarrow> (\<exists>l. loc_ok l s \<and> others_idle l s)"

lemma um_inv_init: "um_inv um_init"
  unfolding um_inv_def
  by (rule exI [of _ InQueue]) (simp add: um_init_def UnparkMutex_new_def others_idle_def)

lemmas um_step_defs = set_run_def set_notif_def notif_saw_def um_cas_def um_take_data_def
  um_start_poll_def um_complete_def others_idle_def

lemma um_inv_run:
  assumes "loc_ok l s" "others_idle l s" "s' \<in> run_step i s"
  shows "um_inv s'"
proof (cases "us_run s i = RIdle")
  case True
  then have "s' = set_run i RStart (s\<lparr>us_queue := us_queue s - 1\<rparr>)" "us_queue s > 0"
    using assms(3) by (auto simp: run_step_def split: if_splits)
  moreover from this have "l = InQueue"
    using assms(1) by (cases l) auto
  ultimately show ?thesis
    using assms(1,2) unfolding um_inv_def
    by (intro exI [of _ "AtRunner i"]) (auto simp: um_step_defs)
next
  case False
  then have l: "l = AtRunner i"
    using assms(2) by (auto simp: others_idle_def)
  let ?l = "if us_run s' i \<noteq> RIdle then AtRunner i
    else if um_status (us_mutex s') = kComplete then Gone else Parked"
  show ?thesis
    using assms unfolding l um_inv_def
    by (intro exI [of _ ?l], cases "us_run s i"; cases "um_status (us_mutex s)")
      (auto simp: run_step_def um_step_defs Let_def split: if_splits)
qed

lemma waiting_parked:
  assumes "loc_ok l s" "us_started s" "um_status (us_mutex s) = kWaiting"
  shows "l = Parked"
proof (cases l)
  case (AtRunner i)
  then show ?thesis using assms by (cases "us_run s i") auto
qed (use assms in auto)

lemma loc_ok_set_notif [simp]: "l \<noteq> AtNotifier j \<Longrightarrow> loc_ok l (set_notif j pc s) = loc_ok l s"
  by (cases l) (simp_all add: set_notif_def cong: rpc.case_cong npc.case_cong)

lemma loc_ok_wake:
  assumes "loc_ok l s" "um_status (us_mutex s) \<noteq> kWaiting" "um_status (us_mutex s) \<noteq> kPolling"
  shows "loc_ok l (s\<lparr>us_wake := True\<rparr>)"
proof (cases l)
  case (AtRunner i)
  then show ?thesis using assms by (cases "us_run s i") auto
qed (use assms in \<open>auto cong: npc.case_cong\<close>)

lemma loc_ok_repoll:
  assumes "loc_ok l s" "um_status (us_mutex s) = kPolling"
  shows "loc_ok l (s\<lparr>us_mutex := (us_mutex s)\<lparr>um_status := kRepoll\<rparr>, us_wake := True\<rparr>)"
proof (cases l)
  case (AtRunner i)
  then show ?thesis using assms by (cases "us_run s i") auto
qed (use assms in \<open>auto cong: npc.case_cong\<close>)

lemma others_idle_set_notif:
  assumes "others_idle l s" "pc \<in> {NIdle, NLoaded kWaiting, NLoaded kPolling}" "us_started s"
  shows "others_idle l (set_notif j pc s)"
  using assms by (auto simp: others_idle_def set_notif_def)

lemma others_idle_mutex [simp]:
  "others_idle l (s\<lparr>us_mutex := m\<rparr>) = others_idle l s"
  "others_idle l (s\<lparr>us_wake := b\<rparr>) = others_idle l s"
  by (simp_all add: others_idle_def)

lemma um_inv_saw:
  assumes "loc_ok l s" "others_idle l s" "us_started s" "l \<noteq> AtNotifier j"
  shows "um_inv (notif_saw j (um_status (us_mutex s)) s)"
proof (cases "um_status (us_mutex s) = kWaiting \<or> um_status (us_mutex s) = kPolling")
  case True
  then have "others_idle l (set_notif j (NLoaded (um_status (us_mutex s))) s)"
    using assms by (intro others_idle_set_notif) auto
  then show ?thesis
    using True assms by (auto simp: notif_saw_def um_inv_def intro!: exI [of _ l])
next
  case False
  then have "others_idle l (set_notif j NIdle (s\<lparr>us_wake := True\<rparr>))"
    using assms by (intro others_idle_set_notif) auto
  then show ?thesis
    using False assms loc_ok_wake [OF assms(1)]
    by (auto simp: notif_saw_def um_inv_def intro!: exI [of _ l])
qed

lemma um_inv_won:
  assumes "loc_ok l s" "others_idle l s" "us_started s" "um_status (us_mutex s) = kWaiting"
  shows "um_inv (set_notif j NTake
    (s\<lparr>us_mutex := (us_mutex s)\<lparr>um_status := kPolling\<rparr>, us_wake := True\<rparr>))"
  using assms waiting_parked [OF assms(1,3,4)] unfolding um_inv_def
  by (intro exI [of _ "AtNotifier j"]) (auto simp: others_idle_def set_notif_def)

lemma um_inv_repoll:
  assumes "loc_ok l s" "others_idle l s" "us_started s" "l \<noteq> AtNotifier j"
    "um_status (us_mutex s) = kPolling"
  shows "um_inv (set_notif j NIdle
    (s\<lparr>us_mutex := (us_mutex s)\<lparr>um_status := kRepoll\<rparr>, us_wake := True\<rparr>))"
proof -
  have "others_idle l (set_notif j NIdle
      (s\<lparr>us_mutex := (us_mutex s)\<lparr>um_status := kRepoll\<rparr>, us_wake := True\<rparr>))"
    using assms by (intro others_idle_set_notif) auto
  then show ?thesis
    using assms loc_ok_repoll [OF assms(1,5)] by (auto simp: um_inv_def intro!: exI [of _ l])
qed

lemma um_inv_notif:
  assumes "loc_ok l s" "others_idle l s" "s' \<in> notif_step j s"
  shows "um_inv s'"
proof (cases "l = AtNotifier j")
  case True
  let ?l = "if us_notif s' j = NIdle then InQueue else AtNotifier j"
  show ?thesis
    using assms unfolding True um_inv_def
    by (intro exI [of _ ?l], cases "us_notif s j")
      (auto simp: notif_step_def um_step_defs Let_def split: if_splits)
next
  case False
  then have pc: "us_notif s j = NIdle \<or> us_notif s j = NLoaded kWaiting \<or> us_notif s j = NLoaded kPolling"
      and started: "us_notif s j \<noteq> NIdle \<Longrightarrow> us_started s"
    using assms(2) by (auto simp: others_idle_def)
  show ?thesis
    using pc
  proof (elim disjE)
    assume "us_notif s j = NIdle"
    then show ?thesis
      using assms False by (auto simp: notif_step_def intro: um_inv_saw split: if_splits)
  next
    assume "us_notif s j = NLoaded kWaiting"
    then show ?thesis
      using assms False started um_inv_won [OF assms(1,2)] um_inv_saw [OF assms(1,2)]
      by (auto simp: notif_step_def um_cas_def split: if_splits)
  next
    assume "us_notif s j = NLoaded kPolling"
    then show ?thesis
      using assms False started um_inv_repoll [OF assms(1,2)] um_inv_saw [OF assms(1,2)]
      by (auto simp: notif_step_def um_cas_def split: if_splits)
  qed
qed

lemma um_reach_inv: "um_reach s \<Longrightarrow> um_inv s"
proof (induction rule: um_reach.induct)
  case init
  show ?case by (rule um_inv_init)
next
  case (run s s' i)
  then show ?case
    using um_inv_run unfolding um_inv_def [of s] by blast
next
  case (notify s s' j)
  then show ?case
    using um_inv_notif unfolding um_inv_def [of s] by blast
qed

lemma um_reach_loc:
  assumes "um_reach s"
  obtains l where "loc_ok l s" "others_idle l s"
  using um_reach_inv [OF assms] by (auto simp: um_inv_def)

lemma at_runner_wake:
  assumes "loc_ok (AtRunner i) s" "us_wake s"
  shows "us_run s i \<in> {RStart, RBegin, RRetryStore, RRetryTake} \<or>
    us_run s i \<in> {RPoll, RStore, RCas} \<and> um_status (us_mutex s) = kRepoll"
  using assms by (cases "us_run s i") auto

lemma at_notifier: "loc_ok (AtNotifier j) s \<Longrightarrow> us_notif s j \<in> {NTake, NHas}"
  by (cases "us_notif s j") auto

text \<open>A short run for the witnesses: the task is picked up, polled and notified meanwhile.\<close>

definition um_polling :: um_sys where
  "um_polling = \<lparr>us_mutex = \<lparr>um_status = kPolling, um_data = None\<rparr>, us_queue = 0,
     us_run = (\<lambda>_. RIdle)(0 := RPoll), us_notif = (\<lambda>_. NIdle), us_started = True, us_wake = False\<rparr>"

definition um_notified :: um_sys where
  "um_notified = um_polling\<lparr>us_mutex := \<lparr>um_status = kRepoll, um_data = None\<rparr>, us_wake := True\<rparr>"

lemma um_reach_polling: "um_reach um_polling"
proof -
  let ?s1 = "set_run 0 RStart (um_init\<lparr>us_queue := 0\<rparr>)"
  let ?s2 = "set_run 0 RBegin (?s1\<lparr>us_mutex := um_start_poll (us_mutex ?s1)\<rparr>)"
  have "um_reach ?s1"
    by (rule um_reach.run [OF um_reach.init, where i = 0]) (simp add: run_step_def um_init_def)
  then have "um_reach ?s2"
    by (rule um_reach.run [where i = 0]) (simp add: run_step_def set_run_def)
  then show ?thesis
    by (rule um_reach.run [where i = 0])
      (simp add: run_step_def set_run_def um_init_def um_start_poll_def UnparkMutex_new_def
        um_polling_def)
qed

lemma um_reach_notified: "um_reach um_notified"
proof -
  have "um_reach (set_notif 0 (NLoaded kPolling) um_polling)"
    by (rule um_reach.notify [OF um_reach_polling, where j = 0])
      (simp add: notif_step_def notif_saw_def um_polling_def)
  then show ?thesis
    by (rule um_reach.notify [where j = 0])
      (auto simp: notif_step_def um_cas_def set_notif_def um_polling_def um_notified_def)
qed

text \<open>
  C9 --- mutual exclusion.  In every interleaving of any number of executor threads and
  notifiers, at most one thread is inside \<open>run\<close> for the task, and while one is, the task is
  neither queued again nor in the hands of a notifier.
\<close>

theorem run_exclusive:
  assumes "um_reach s" "us_run s i \<noteq> RIdle"
  shows "(\<forall>i'. us_run s i' = (if i' = i then us_run s i else RIdle)) \<and> us_queue s = 0 \<and>
    (\<forall>j. us_notif s j \<noteq> NTake \<and> us_notif s j \<noteq> NHas)"
proof -
  obtain l where l: "loc_ok l s" "others_idle l s"
    using um_reach_loc [OF assms(1)] .
  then have "l = AtRunner i"
    using assms(2) by (auto simp: others_idle_def)
  then have "us_run s i' = (if i' = i then us_run s i else RIdle)"
      "us_notif s j \<in> {NIdle, NLoaded kWaiting, NLoaded kPolling}" "us_queue s = 0" for i' j
    using l by (auto simp: others_idle_def)
  then show ?thesis
    by (metis insert_iff npc.distinct(3,5,9,11) singletonD)
qed

theorem run_exclusive_witness:
  "um_reach um_polling \<and> us_run um_polling 0 \<noteq> RIdle \<and>
   (\<forall>i'. us_run um_polling i' = (if i' = 0 then us_run um_polling 0 else RIdle)) \<and>
   us_queue um_polling = 0 \<and>
   (\<forall>j. us_notif um_polling j \<noteq> NTake \<and> us_notif um_polling j \<noteq> NHas)"
proof -
  have r: "us_run um_polling 0 \<noteq> RIdle" by (simp add: um_polling_def)
  show ?thesis
    using run_exclusive [OF um_reach_polling r] um_reach_polling r by blast
qed

text \<open>
  C10 --- the assertion in \<open>wait\<close> that the status is \<open>kRepoll\<close> never fails, \<open>wait\<close> always gives
  the task back after a failed exchange, and a notifier that moves the status from
  \<open>kWaiting\<close> to \<open>kPolling\<close> always finds the task object to schedule.
\<close>

theorem unpark_mutex_assertions:
  assumes "um_reach s"
  shows "us_run s i \<noteq> RFail \<and> us_run s i \<noteq> RLost \<and> us_notif s j \<noteq> NLost"
proof -
  obtain l where l: "loc_ok l s" "others_idle l s"
    using um_reach_loc [OF assms] .
  have "us_run s i \<noteq> RFail \<and> us_run s i \<noteq> RLost"
    using l by (cases "l = AtRunner i") (auto simp: others_idle_def)
  moreover have "us_notif s j \<noteq> NLost"
    using l by (cases "l = AtNotifier j") (auto simp: others_idle_def)
  ultimately show ?thesis by blast
qed

theorem unpark_mutex_assertions_witness:
  "um_reach um_notified \<and> us_run um_notified 0 \<noteq> RFail \<and> us_run um_notified 0 \<noteq> RLost \<and>
   us_notif um_notified 0 \<noteq> NLost"
  using unpark_mutex_assertions [OF um_reach_notified, of 0 0] um_reach_notified by blast



end
