(* ===== verification/Streams.thy ===== *)
theory Streams
  imports Tasks
begin

text \<open>
  The streams of \<open>Stream.h\<close> and \<open>Stream-inl.h\<close>.  A stream is a poller of \<open>'a option\<close>:
  \<open>None\<close> is the end of the stream.  The combinators that skip or consume items
  (\<open>forEach\<close>, \<open>collect\<close>, \<open>filter\<close>, \<open>drop\<close>) share the loop of their \<open>poll\<close>, which is
  \<open>stream_loop\<close>; the others poll once per call.

  \<open>emits\<close> is the specification of a stream: the items it delivers and how it ends.  The
  lemmas characterise every combinator on it, so that pipelines reduce to list functions.
\<close>

type_synonym ('s, 'w, 'a) stream_poller = "('s, 'w, 'a option) poller"

subsection \<open>Sources\<close>

definition EmptyStream_poll :: "(unit, 'w, 'a) stream_poller" where
  "EmptyStream_poll s w = Some (Ret (makePollReady None), s, w)"

text \<open>\<open>BoxedStream\<close> dereferences its pointer without a check.\<close>

definition BoxedStream_poll :: "('s, 'w, 'a) stream_poller \<Rightarrow> ('s option, 'w, 'a) stream_poller" where
  "BoxedStream_poll p b w =
     (case b of
        None \<Rightarrow> Some (Abort, None, w)
      | Some s \<Rightarrow> call (p s w) Some (\<lambda>r s' w'. Some (Ret r, Some s', w')))"

record 'i iter_stream =
  is_it :: 'i
  is_end :: 'i

definition IterStream_poll ::
  "('i \<Rightarrow> 'i \<Rightarrow> bool) \<Rightarrow> ('i \<Rightarrow> 'a) \<Rightarrow> ('i \<Rightarrow> 'i) \<Rightarrow> ('i iter_stream, 'w, 'a) stream_poller" where
  "IterStream_poll eq deref incr s w =
     (if eq (is_it s) (is_end s) then Some (Ret (makePollReady None), s, w)
      else Some (Ret (makePollReady (Some (deref (is_it s)))), s\<lparr>is_it := incr (is_it s)\<rparr>, w))"

text \<open>\<open>nTimes(n)\<close> iterates an \<open>IntIter\<close> from 0; \<open>n\<close> is an \<open>int\<close>.\<close>

definition nTimes :: "int \<Rightarrow> int iter_stream" where
  "nTimes n = \<lparr>is_it = 0, is_end = n\<rparr>"

definition nTimes_poll :: "(int iter_stream, 'w, int) stream_poller" where
  "nTimes_poll = IterStream_poll (=) (\<lambda>i. i) (\<lambda>i. i + 1)"

subsection \<open>Combinators that poll once\<close>

text \<open>\<open>stream_->poll()\<close> on a cleared \<open>Optional\<close> throws.\<close>

definition MapStream_poll ::
  "('s, 'w, 'a) stream_poller \<Rightarrow> ('a, 'w, 'b) callback \<Rightarrow> ('s option, 'w, 'b) stream_poller" where
  "MapStream_poll p func st w =
     (case st of
        None \<Rightarrow> Some (Throw OptionalEmptyException, None, w)
      | Some s \<Rightarrow>
          call (p s w) Some
            (\<lambda>r s' w'.
               case r of
                 Exception e \<Rightarrow> Some (Ret (Exception e), None, w')
               | Nothing \<Rightarrow> Some (Throw UsingUninitializedTry, Some s', w')
               | Value None \<Rightarrow> Some (Ret not_ready, Some s', w')
               | Value (Some None) \<Rightarrow> Some (Ret makeStreamEof, None, w')
               | Value (Some (Some v)) \<Rightarrow>
                   try_callback (func v w') (Some s')
                     (\<lambda>e w''. Some (Ret (Exception e), None, w''))
                     (\<lambda>y w''. Some (Ret (makeStreamReady y), Some s', w''))))"

record 's take_stream =
  tk_stream :: "'s option"
  tk_remain :: nat

text \<open>
  \<open>TakeStream\<close>: \<open>v\<close> is the \<open>Async\<close> that is known to be ready, so \<open>v.hasValue()\<close> is true also
  at the end of the stream and the branch that clears the stream is not reached.
\<close>

definition TakeStream_poll :: "('s, 'w, 'a) stream_poller \<Rightarrow> ('s take_stream, 'w, 'a) stream_poller" where
  "TakeStream_poll p t w =
     (if tk_remain t = 0 then Some (Ret makeStreamEof, t\<lparr>tk_stream := None\<rparr>, w)
      else
        (case tk_stream t of
           None \<Rightarrow> Some (Throw OptionalEmptyException, t, w)
         | Some s \<Rightarrow>
             call (p s w) (\<lambda>s'. t\<lparr>tk_stream := Some s'\<rparr>)
               (\<lambda>r s' w'.
                  case r of
                    Exception e \<Rightarrow> Some (Ret (Exception e), t\<lparr>tk_stream := None\<rparr>, w')
                  | Nothing \<Rightarrow> Some (Throw UsingUninitializedTry, t\<lparr>tk_stream := Some s'\<rparr>, w')
                  | Value None \<Rightarrow> Some (Ret not_ready, t\<lparr>tk_stream := Some s'\<rparr>, w')
                  | Value (Some v) \<Rightarrow>
                      Some (Ret (makePollReady v),
                            \<lparr>tk_stream = Some s', tk_remain = tk_remain t - 1\<rparr>, w'))))"

record ('s, 'f) and_then_stream =
  at_stream :: "'s option"
  at_fut :: "'f option"

definition at_poll_fut ::
  "('f, 'w, 'b) poller \<Rightarrow> ('s, 'f) and_then_stream \<Rightarrow> 'f \<Rightarrow> 'w
   \<Rightarrow> (('s, 'f) and_then_stream, 'w, 'b option poll) member_call" where
  "at_poll_fut pf a f w =
     call (pf f w) (\<lambda>f'. a\<lparr>at_fut := Some f'\<rparr>)
       (\<lambda>r f' w'.
          case r of
            Exception e \<Rightarrow> Some (Ret (Exception e), \<lparr>at_stream = None, at_fut = None\<rparr>, w')
          | Nothing \<Rightarrow> Some (Throw UsingUninitializedTry, a\<lparr>at_fut := Some f'\<rparr>, w')
          | Value (Some v) \<Rightarrow> Some (Ret (makeStreamReady v), a\<lparr>at_fut := None\<rparr>, w')
          | Value None \<Rightarrow> Some (Ret not_ready, a\<lparr>at_fut := Some f'\<rparr>, w'))"

definition AndThenStream_poll ::
  "('s, 'w, 'a) stream_poller \<Rightarrow> ('a, 'w, 'f) callback \<Rightarrow> ('f, 'w, 'b) poller
   \<Rightarrow> (('s, 'f) and_then_stream, 'w, 'b) stream_poller" where
  "AndThenStream_poll p func pf a w =
     (case at_fut a of
        Some f \<Rightarrow> at_poll_fut pf a f w
      | None \<Rightarrow>
          (case at_stream a of
             None \<Rightarrow> Some (Throw OptionalEmptyException, a, w)
           | Some s \<Rightarrow>
               call (p s w) (\<lambda>s'. a\<lparr>at_stream := Some s'\<rparr>)
                 (\<lambda>r s' w'.
                    case r of
                      Exception e \<Rightarrow> Some (Ret (Exception e), a\<lparr>at_stream := None\<rparr>, w')
                    | Nothing \<Rightarrow> Some (Throw UsingUninitializedTry, a\<lparr>at_stream := Some s'\<rparr>, w')
                    | Value None \<Rightarrow> Some (Ret not_ready, a\<lparr>at_stream := Some s'\<rparr>, w')
                    | Value (Some None) \<Rightarrow>
                        Some (Ret makeStreamEof, \<lparr>at_stream = None, at_fut = None\<rparr>, w')
                    | Value (Some (Some v)) \<Rightarrow>
                        try_callback (func v w') (a\<lparr>at_stream := Some s'\<rparr>)
                          (\<lambda>e w''. Some (Ret (Exception e), a\<lparr>at_stream := None\<rparr>, w''))
                          (\<lambda>f w''. at_poll_fut pf \<lparr>at_stream = Some s', at_fut = Some f\<rparr> f w''))))"

subsection \<open>Combinators with a loop\<close>

text \<open>
  The loop of \<open>ForEachFuture\<close>, \<open>CollectStreamFuture\<close>, \<open>FilterStream\<close> and \<open>DropStreamFuture\<close>:
  poll the stream; an exception, a pending result or the end of the stream returns; an item
  is handled by \<open>item\<close>, which goes on with a new accumulator (\<open>Inl\<close>) or returns (\<open>Inr\<close>).
  \<open>wrap\<close> is the object around the stream and the accumulator, \<open>on_exn\<close> and \<open>on_eof\<close> what is
  left of it after an exception and at the end.
\<close>

partial_function (option) stream_loop ::
  "('s, 'w, 'a) stream_poller \<Rightarrow> ('s \<Rightarrow> 'c \<Rightarrow> 'o) \<Rightarrow> ('s \<Rightarrow> 'c \<Rightarrow> 'o) \<Rightarrow> ('s \<Rightarrow> 'c \<Rightarrow> 'o) \<Rightarrow> ('c \<Rightarrow> 'b)
   \<Rightarrow> ('a \<Rightarrow> 'c \<Rightarrow> 'w \<Rightarrow> (('c + 'b poll outcome) \<times> 'w) option) \<Rightarrow> 'c \<Rightarrow> 's \<Rightarrow> 'w
   \<Rightarrow> ('o, 'w, 'b poll) member_call" where
  "stream_loop p wrap on_exn on_eof result item c s w =
     call (p s w) (\<lambda>s'. wrap s' c)
       (\<lambda>r s' w'.
          case r of
            Exception e \<Rightarrow> Some (Ret (Exception e), on_exn s' c, w')
          | Nothing \<Rightarrow> Some (Throw UsingUninitializedTry, wrap s' c, w')
          | Value None \<Rightarrow> Some (Ret not_ready, wrap s' c, w')
          | Value (Some None) \<Rightarrow> Some (Ret (makePollReady (result c)), on_eof s' c, w')
          | Value (Some (Some v)) \<Rightarrow>
              (case item v c w' of
                 None \<Rightarrow> None
               | Some (Inl c', w'') \<Rightarrow>
                   stream_loop p wrap on_exn on_eof result item c' s' w''
               | Some (Inr x, w'') \<Rightarrow> Some (x, wrap s' c, w'')))"

definition foreach_item ::
  "('a, 'w, unit) callback \<Rightarrow> 'a \<Rightarrow> unit \<Rightarrow> 'w \<Rightarrow> ((unit + unit poll outcome) \<times> 'w) option" where
  "foreach_item func v c w =
     (case func v w of
        None \<Rightarrow> None
      | Some (Ret _, w') \<Rightarrow> Some (Inl (), w')
      | Some (Throw e, w') \<Rightarrow> Some (Inr (if is_std e then Ret (Exception e) else Throw e), w')
      | Some (Abort, w') \<Rightarrow> Some (Inr Abort, w'))"

definition ForEachFuture_poll ::
  "('s, 'w, 'a) stream_poller \<Rightarrow> ('a, 'w, unit) callback \<Rightarrow> ('s, 'w, unit) poller" where
  "ForEachFuture_poll p func s w =
     stream_loop p (\<lambda>s _. s) (\<lambda>s _. s) (\<lambda>s _. s) (\<lambda>_. ()) (foreach_item func) () s w"

record ('s, 'a) collect_future =
  co_stream :: "'s option"
  co_vals :: "'a list"

definition CollectStreamFuture_new :: "'s \<Rightarrow> ('s, 'a) collect_future" where
  "CollectStreamFuture_new s = \<lparr>co_stream = Some s, co_vals = []\<rparr>"

text \<open>At the end the vector is moved out, which leaves it empty.\<close>

definition CollectStreamFuture_poll ::
  "('s, 'w, 'a) stream_poller \<Rightarrow> (('s, 'a) collect_future, 'w, 'a list) poller" where
  "CollectStreamFuture_poll p c w =
     (case co_stream c of
        None \<Rightarrow> Some (Throw OptionalEmptyException, c, w)
      | Some s \<Rightarrow>
          stream_loop p (\<lambda>s vs. \<lparr>co_stream = Some s, co_vals = vs\<rparr>)
            (\<lambda>_ vs. \<lparr>co_stream = None, co_vals = vs\<rparr>) (\<lambda>_ _. \<lparr>co_stream = None, co_vals = []\<rparr>)
            (\<lambda>vs. vs) (\<lambda>v vs w. Some (Inl (vs @ [v]), w)) (co_vals c) s w)"

text \<open>The predicate of \<open>filter\<close> is called outside any \<open>try\<close>.\<close>

definition filter_item ::
  "('a, 'w, bool) callback \<Rightarrow> 'a \<Rightarrow> unit \<Rightarrow> 'w \<Rightarrow> ((unit + 'a option poll outcome) \<times> 'w) option" where
  "filter_item func v c w =
     (case func v w of
        None \<Rightarrow> None
      | Some (Ret b, w') \<Rightarrow> Some (if b then Inr (Ret (makePollReady (Some v))) else Inl (), w')
      | Some (Throw e, w') \<Rightarrow> Some (Inr (Throw e), w')
      | Some (Abort, w') \<Rightarrow> Some (Inr Abort, w'))"

definition FilterStream_poll ::
  "('s, 'w, 'a) stream_poller \<Rightarrow> ('a, 'w, bool) callback \<Rightarrow> ('s option, 'w, 'a) stream_poller" where
  "FilterStream_poll p func st w =
     (case st of
        None \<Rightarrow> Some (Throw OptionalEmptyException, None, w)
      | Some s \<Rightarrow>
          stream_loop p (\<lambda>s _. Some s) (\<lambda>_ _. None) (\<lambda>_ _. None) (\<lambda>_. None) (filter_item func) () s w)"

definition DropStreamFuture_poll :: "('s, 'w, 'a) stream_poller \<Rightarrow> ('s, 'w, unit) poller" where
  "DropStreamFuture_poll p s w =
     stream_loop p (\<lambda>s _. s) (\<lambda>s _. s) (\<lambda>s _. s) (\<lambda>_. ()) (\<lambda>v c w. Some (Inl (), w)) () s w"

subsection \<open>StreamSpawn and StreamIterator\<close>

text \<open>\<open>StreamSpawn\<close> is \<open>FutureSpawn\<close> on a poller of optional items.\<close>

definition wait_stream ::
  "('s, 'z task_world_scheme, 'a) stream_poller
   \<Rightarrow> ('z task_world_scheme \<Rightarrow> 'z task_world_scheme option)
   \<Rightarrow> ('s future_spawn, 'z task_world_scheme, 'a) stream_poller" where
  "wait_stream p sleep sp w = wait_loop p sleep False sp w"

record ('s, 'a) stream_iterator =
  si_spawn :: "'s future_spawn option"
  si_item :: "'a option"

definition loadNext ::
  "('s, 'z task_world_scheme, 'a) stream_poller
   \<Rightarrow> ('z task_world_scheme \<Rightarrow> 'z task_world_scheme option)
   \<Rightarrow> ('s, 'a) stream_iterator \<Rightarrow> 'z task_world_scheme
   \<Rightarrow> (('s, 'a) stream_iterator, 'z task_world_scheme, unit) member_call" where
  "loadNext p sleep it w =
     (case si_spawn it of
        None \<Rightarrow> Some (Ret (), it, w)
      | Some sp \<Rightarrow>
          call (wait_stream p sleep sp w) (\<lambda>sp'. it\<lparr>si_spawn := Some sp'\<rparr>)
            (\<lambda>r sp' w'.
               case r of
                 Exception e \<Rightarrow> Some (Throw e, it\<lparr>si_spawn := Some sp'\<rparr>, w')
               | Nothing \<Rightarrow> Some (Throw UsingUninitializedTry, it\<lparr>si_spawn := Some sp'\<rparr>, w')
               | Value None \<Rightarrow> Some (Throw OptionalEmptyException, it\<lparr>si_spawn := Some sp'\<rparr>, w')
               | Value (Some v) \<Rightarrow>
                   Some (Ret (), \<lparr>si_spawn = (if v = None then None else Some sp'), si_item = v\<rparr>, w')))"

definition stream_iterator_equal :: "('s, 'a) stream_iterator \<Rightarrow> ('s, 'a) stream_iterator \<Rightarrow> bool" where
  "stream_iterator_equal a b =
     (case (si_spawn a, si_spawn b) of
        (Some x, Some y) \<Rightarrow> fs_id x = fs_id y
      | (None, None) \<Rightarrow> True
      | _ \<Rightarrow> False)"

subsection \<open>The common loop\<close>

text \<open>
  What a consuming combinator relies on: its \<open>poll\<close> is the loop, and a handler that returns
  does not return a pending result.  \<open>stream_run\<close> is the loop as iteration over the items
  that the stream resolves to.
\<close>

fun stream_halt ::
  "('s \<Rightarrow> 'c \<Rightarrow> 'o) \<Rightarrow> ('s \<Rightarrow> 'c \<Rightarrow> 'o) \<Rightarrow> ('s \<Rightarrow> 'c \<Rightarrow> 'o) \<Rightarrow> ('c \<Rightarrow> 'b) \<Rightarrow> 'c \<Rightarrow> 's
   \<Rightarrow> 'a option Try outcome \<Rightarrow> ('b Try outcome \<times> 'o) option" where
  "stream_halt wrap on_exn on_eof result c s (Ret (Value None)) = Some (Ret (Value (result c)), on_eof s c)"
| "stream_halt wrap on_exn on_eof result c s (Ret (Value (Some v))) = None"
| "stream_halt wrap on_exn on_eof result c s (Ret (Exception e)) = Some (Ret (Exception e), on_exn s c)"
| "stream_halt wrap on_exn on_eof result c s (Ret Nothing) = Some (Throw UsingUninitializedTry, wrap s c)"
| "stream_halt wrap on_exn on_eof result c s (Throw e) = Some (Throw e, wrap s c)"
| "stream_halt wrap on_exn on_eof result c s Abort = Some (Abort, wrap s c)"

lemma stream_outcome_cases [case_names Eof Item Failed Broken Thrown Aborted]:
  fixes y :: "'a option Try outcome"
  obtains "y = Ret (Value None)" | v where "y = Ret (Value (Some v))"
  | e where "y = Ret (Exception e)" | "y = Ret Nothing" | e where "y = Throw e" | "y = Abort"
proof (cases y rule: unfinal.cases)
  case (1 x)
  then show thesis using that(1,2) by (cases x) auto
qed (use that in auto)

lemma item_result_cases [case_names Diverges Goes Stops]:
  fixes m :: "(('c + 'x) \<times> 'w) option"
  obtains "m = None" | c w where "m = Some (Inl c, w)" | x w where "m = Some (Inr x, w)"
proof (cases m)
  case (Some q)
  obtain z w where "q = (z, w)" by (cases q)
  then show thesis
    using Some that(2,3) by (cases z) auto
qed (rule that(1))

locale stream_consumer =
  fixes p :: "('s, 'w, 'a) stream_poller"
    and wrap :: "'s \<Rightarrow> 'c \<Rightarrow> 'o" and on_exn :: "'s \<Rightarrow> 'c \<Rightarrow> 'o" and on_eof :: "'s \<Rightarrow> 'c \<Rightarrow> 'o"
    and result :: "'c \<Rightarrow> 'b"
    and item :: "'a \<Rightarrow> 'c \<Rightarrow> 'w \<Rightarrow> (('c + 'b poll outcome) \<times> 'w) option"
    and poll :: "('o, 'w, 'b) poller"
  assumes poll_loop: "poll (wrap s c) w = stream_loop p wrap on_exn on_eof result item c s w"
    and item_final: "item v c w = Some (Inr x, w') \<Longrightarrow> final x \<noteq> None"
begin

abbreviation halt where
  "halt \<equiv> stream_halt wrap on_exn on_eof result"

inductive stream_run :: "('w \<Rightarrow> 'w \<Rightarrow> bool) \<Rightarrow> 'c \<Rightarrow> 's \<Rightarrow> 'w \<Rightarrow> 'b Try outcome \<Rightarrow> 'o \<Rightarrow> 'w \<Rightarrow> bool"
  for env where
  halt: "resolves p env s w y s1 w1 \<Longrightarrow> halt c s1 y = Some (r, obj) \<Longrightarrow> stream_run env c s w r obj w1"
| item_stop: "resolves p env s w (Ret (Value (Some v))) s1 w1 \<Longrightarrow> item v c w1 = Some (Inr x, w2)
    \<Longrightarrow> final x = Some r \<Longrightarrow> stream_run env c s w r (wrap s1 c) w2"
| item_go: "resolves p env s w (Ret (Value (Some v))) s1 w1 \<Longrightarrow> item v c w1 = Some (Inl c', w2)
    \<Longrightarrow> stream_run env c' s1 w2 r obj w' \<Longrightarrow> stream_run env c s w r obj w'"

text \<open>What one item does to the rest of the run.\<close>

definition item_run where
  "item_run rest env v c s w r obj w' \<longleftrightarrow>
     (case item v c w of
        None \<Rightarrow> False
      | Some (Inl c', w2) \<Rightarrow> rest c' s w2 r obj w'
      | Some (Inr x, w2) \<Rightarrow> final x = Some r \<and> obj = wrap s c \<and> w' = w2)"

definition run_step where
  "run_step rest env c s w r obj w' \<longleftrightarrow>
     (\<exists>y s1 w1. resolves p env s w y s1 w1 \<and>
        (halt c s1 y = Some (r, obj) \<and> w' = w1 \<or>
         (\<exists>v. y = Ret (Value (Some v)) \<and> item_run rest env v c s1 w1 r obj w')))"

lemma run_step_item:
  "resolves p env s w (Ret (Value (Some v))) s1 w1 \<Longrightarrow> item_run rest env v c s1 w1 r obj w'
   \<Longrightarrow> run_step rest env c s w r obj w'"
  unfolding run_step_def by blast

lemma run_step_halt:
  "resolves p env s w y s1 w1 \<Longrightarrow> halt c s1 y = Some (r, obj) \<Longrightarrow> run_step rest env c s w r obj w1"
  unfolding run_step_def by blast

lemma stream_run_step: "stream_run env c s w r obj w' \<longleftrightarrow> run_step (stream_run env) env c s w r obj w'"
proof
  show "stream_run env c s w r obj w' \<Longrightarrow> run_step (stream_run env) env c s w r obj w'"
    by (erule stream_run.cases)
      (auto simp: item_run_def intro: run_step_halt run_step_item)
  show "run_step (stream_run env) env c s w r obj w' \<Longrightarrow> stream_run env c s w r obj w'"
    unfolding run_step_def
  proof (elim exE conjE disjE, goal_cases)
    case (2 y s1 w1 v)
    then show ?case
      by (cases "item v c w1" rule: item_result_cases)
        (auto simp: item_run_def intro: stream_run.intros)
  qed (auto intro: stream_run.intros)
qed

lemma resolves_step:
  "resolves poll env (wrap s c) w r obj w' \<longleftrightarrow>
   run_step (\<lambda>c s. resolves poll env (wrap s c)) env c s w r obj w'"
proof -
  let ?go = "\<lambda>v s1 w1. case item v c w1 of
      None \<Rightarrow> None
    | Some (Inl c', w2) \<Rightarrow> stream_loop p wrap on_exn on_eof result item c' s1 w2
    | Some (Inr x, w2) \<Rightarrow> Some (x, wrap s1 c, w2)"
  let ?k = "\<lambda>y s1 w1. case y of
      Ret (Value (Some v)) \<Rightarrow> ?go v s1 w1
    | _ \<Rightarrow> map_option (\<lambda>(r, obj). (unfinal r, obj, w1)) (halt c s1 y)"
  have "resolves poll env (wrap s c) w r obj w' \<longleftrightarrow>
      (\<exists>y s1 w1. resolves p env s w y s1 w1 \<and> settles poll env (?k y s1 w1) r obj w')"
    by (rule resolves_seq, unfold poll_loop, subst stream_loop.simps)
      (auto simp: call_def makePollReady_def split: option.split outcome.split Try.split)
  moreover have "settles poll env (?k y s1 w1) r obj w' \<longleftrightarrow>
      halt c s1 y = Some (r, obj) \<and> w' = w1 \<or>
      (\<exists>v. y = Ret (Value (Some v)) \<and>
        item_run (\<lambda>c s. resolves poll env (wrap s c)) env v c s1 w1 r obj w')" for y s1 w1
  proof (cases "\<exists>v. y = Ret (Value (Some v))")
    case True
    then obtain v where y: "y = Ret (Value (Some v))" by blast
    show ?thesis
      using item_final [of v c w1]
      by (cases "item v c w1" rule: item_result_cases)
        (auto simp: y item_run_def settles_def resolves_unfold [of poll] poll_loop split: option.splits)
  next
    case False
    then show ?thesis
      by (cases y rule: stream_outcome_cases) (auto simp: settles_def)
  qed
  ultimately show ?thesis
    by (simp add: run_step_def)
qed

text \<open>One call of the loop: a final outcome is one of the run, a pending one is inside it.\<close>

definition loop_ok where
  "loop_ok env c s w y \<longleftrightarrow>
     (\<forall>r. final (fst y) = Some r \<longrightarrow> stream_run env c s w r (fst (snd y)) (snd (snd y))) \<and>
     (final (fst y) = None \<longrightarrow>
        (\<exists>s1 c1. fst (snd y) = wrap s1 c1 \<and>
           (\<forall>w2 r obj w'. env (snd (snd y)) w2 \<longrightarrow> stream_run env c1 s1 w2 r obj w'
              \<longrightarrow> stream_run env c s w r obj w')))"

lemma stream_run_pending:
  assumes "p s w = Some (Ret (Value None), s1, w1)" "env w1 w2" "stream_run env c s1 w2 r obj w'"
  shows "stream_run env c s w r obj w'"
  using assms(3,1,2)
  by (cases rule: stream_run.cases) (blast intro: stream_run.intros resolves_pending)+

lemma stream_loop_ok:
  assumes "stream_loop p wrap on_exn on_eof result item c s w = Some y"
  shows "loop_ok env c s w y"
proof -
  let ?same = "\<lambda>p0 wrap0 exn0 eof0 res0 item0.
    p0 = p \<and> wrap0 = wrap \<and> exn0 = on_exn \<and> eof0 = on_eof \<and> res0 = result \<and> item0 = item"
  have "?same p wrap on_exn on_eof result item \<longrightarrow> loop_ok env c s w y"
  proof (rule stream_loop.raw_induct [where P = "\<lambda>p0 wrap0 exn0 eof0 res0 item0 c s w y.
        ?same p0 wrap0 exn0 eof0 res0 item0 \<longrightarrow> loop_ok env c s w y", OF _ assms], rule impI, goal_cases)
    case (1 rec p0 wrap0 exn0 eof0 res0 item0 c s w y)
    then have same: "p0 = p" "wrap0 = wrap" "exn0 = on_exn" "eof0 = on_eof" "res0 = result" "item0 = item"
      by auto
    have IH: "rec p wrap on_exn on_eof result item c' s' w' = Some y \<Longrightarrow> loop_ok env c' s' w' y" for c' s' w'
      using 1(1) same by blast
    note body = 1(2) [unfolded same]
    show ?case
    proof (cases "p s w" rule: member_call_cases)
      case (Returns t s1 w1)
      consider "t = Value None" | v where "t = Value (Some (Some v))" | r where "final (Ret t) = Some r"
          "\<forall>v. t \<noteq> Value (Some (Some v))"
        by (cases t rule: Try.exhaust; cases "t = Value None") force+
      then show ?thesis
      proof cases
        case 1
        then show ?thesis
          using body Returns stream_run_pending [of s w s1 w1 env]
          by (auto simp: loop_ok_def intro!: exI [of _ s1] exI [of _ c])
      next
        case (2 v)
        have res: "resolves p env s w (Ret (Value (Some v))) s1 w1"
          using Returns 2 by (auto intro: resolves.stop)
        have go: "loop_ok env c s w y" if "loop_ok env c' s1 w2 y" "item v c w1 = Some (Inl c', w2)" for c' w2
          using that stream_run.item_go [OF res that(2)] unfolding loop_ok_def by blast
        show ?thesis
        proof (cases "item v c w1" rule: item_result_cases)
          case (Goes c' w2)
          then show ?thesis
            using body Returns 2 by (intro go [OF _ Goes] IH) simp
        next
          case (Stops x w2)
          then show ?thesis
            using body Returns 2 item_final [OF Stops] stream_run.item_stop [OF res Stops]
            by (auto simp: loop_ok_def)
        qed (use body Returns 2 in simp)
      next
        case (3 r)
        then have res: "resolves p env s w r s1 w1"
          using Returns by (auto intro: resolves.stop)
        then show ?thesis
          using 3 body Returns stream_run.halt [OF res]
          by (cases t) (auto simp: loop_ok_def makePollReady_def split: option.splits)
      qed
    next
      case (Throws e s1 w1)
      then have "resolves p env s w (Throw e) s1 w1"
        by (auto intro: resolves.stop)
      from stream_run.halt [OF this] show ?thesis
        using body Throws by (auto simp: loop_ok_def)
    next
      case (Aborts s1 w1)
      then have "resolves p env s w Abort s1 w1"
        by (auto intro: resolves.stop)
      from stream_run.halt [OF this] show ?thesis
        using body Aborts by (auto simp: loop_ok_def)
    qed (use body in simp)
  qed
  then show ?thesis by simp
qed

lemma resolves_iff: "resolves poll env (wrap s c) w r obj w' \<longleftrightarrow> stream_run env c s w r obj w'"
proof
  assume "stream_run env c s w r obj w'"
  then show "resolves poll env (wrap s c) w r obj w'"
  proof (induction rule: stream_run.induct)
    case (halt s w y s1 w1 c r obj)
    then show ?case
      by (subst resolves_step) (rule run_step_halt)
  next
    case (item_stop s w v s1 w1 c x w2 r)
    then show ?case
      by (subst resolves_step, intro run_step_item [OF item_stop(1)]) (simp add: item_run_def)
  next
    case (item_go s w v s1 w1 c c' w2 r obj w')
    then show ?case
      by (subst resolves_step, intro run_step_item [OF item_go(1)]) (simp add: item_run_def)
  qed
next
  assume "resolves poll env (wrap s c) w r obj w'"
  then show "stream_run env c s w r obj w'"
  proof (induction "wrap s c" w r obj w' arbitrary: s c rule: resolves.induct)
    case (stop w x s' w' r)
    then have "loop_ok env c s w (x, s', w')"
      by (intro stream_loop_ok) (simp add: poll_loop)
    then show ?case
      using stop.hyps(2) by (simp add: loop_ok_def)
  next
    case (again w x o1 w1 w2 r s' w')
    then have "loop_ok env c s w (x, o1, w1)"
      by (intro stream_loop_ok) (simp add: poll_loop)
    then show ?case
      using again.hyps(2,3,5) by (auto simp: loop_ok_def)
  qed
qed

lemma yields_iff: "yields poll env (wrap s c) w r w' \<longleftrightarrow> (\<exists>obj. stream_run env c s w r obj w')"
  by (simp add: yields_def resolves_iff)

end

subsection \<open>What a stream emits\<close>

text \<open>How a stream ends: at its end, with an exception, or by an escape from \<open>poll\<close>.\<close>

datatype stream_end = Eof | Failed exn | Broken | Thrown exn | Aborted

fun ending :: "'a option Try outcome \<Rightarrow> stream_end option" where
  "ending (Ret (Value None)) = Some Eof"
| "ending (Ret (Value (Some v))) = None"
| "ending (Ret (Exception e)) = Some (Failed e)"
| "ending (Ret Nothing) = Some Broken"
| "ending (Throw e) = Some (Thrown e)"
| "ending Abort = Some Aborted"

inductive emits ::
  "('s, 'w, 'a) stream_poller \<Rightarrow> ('w \<Rightarrow> 'w \<Rightarrow> bool) \<Rightarrow> 's \<Rightarrow> 'w \<Rightarrow> 'a list \<Rightarrow> stream_end \<Rightarrow> 'w \<Rightarrow> bool"
  for p :: "('s, 'w, 'a) stream_poller" and env :: "'w \<Rightarrow> 'w \<Rightarrow> bool" where
  finish: "resolves p env s w y s' w' \<Longrightarrow> ending y = Some t \<Longrightarrow> emits p env s w [] t w'"
| item: "resolves p env s w (Ret (Value (Some v))) s1 w1 \<Longrightarrow> emits p env s1 w1 vs t w'
    \<Longrightarrow> emits p env s w (v # vs) t w'"

inductive_cases emits_NilE: "emits p env s w [] t w'"
inductive_cases emits_ConsE: "emits p env s w (v # vs) t w'"

text \<open>What a consumer returns when the stream ends like that.\<close>

fun end_result :: "'b \<Rightarrow> stream_end \<Rightarrow> 'b Try outcome" where
  "end_result b Eof = Ret (Value b)"
| "end_result b (Failed e) = Ret (Exception e)"
| "end_result b Broken = Throw UsingUninitializedTry"
| "end_result b (Thrown e) = Throw e"
| "end_result b Aborted = Abort"

interpretation collect: stream_consumer p "\<lambda>s vs. \<lparr>co_stream = Some s, co_vals = vs\<rparr>"
  "\<lambda>_ vs. \<lparr>co_stream = None, co_vals = vs\<rparr>" "\<lambda>_ _. \<lparr>co_stream = None, co_vals = []\<rparr>" "\<lambda>vs. vs"
  "\<lambda>v vs w. Some (Inl (vs @ [v]), w)" "CollectStreamFuture_poll p" for p
  by unfold_locales (simp_all add: CollectStreamFuture_poll_def)

interpretation drops: stream_consumer p "\<lambda>s _. s" "\<lambda>s _. s" "\<lambda>s _. s" "\<lambda>_. ()"
  "\<lambda>v c w. Some (Inl (), w)" "DropStreamFuture_poll p" for p
  by unfold_locales (simp_all add: DropStreamFuture_poll_def)

interpretation foreach: stream_consumer p "\<lambda>s _. s" "\<lambda>s _. s" "\<lambda>s _. s" "\<lambda>_. ()"
  "foreach_item func" "ForEachFuture_poll p func" for p func
  by unfold_locales
    (auto simp: ForEachFuture_poll_def foreach_item_def split: option.splits outcome.splits if_splits)

interpretation filters: stream_consumer p "\<lambda>s _. Some s" "\<lambda>_ _. None" "\<lambda>_ _. None" "\<lambda>_. None"
  "filter_item func" "FilterStream_poll p func" for p func
  by unfold_locales
    (auto simp: FilterStream_poll_def filter_item_def makePollReady_def
      split: option.splits outcome.splits if_splits)

text \<open>The items delivered so far, with the state of the stream after them.\<close>

inductive delivers ::
  "('s, 'w, 'a) stream_poller \<Rightarrow> ('w \<Rightarrow> 'w \<Rightarrow> bool) \<Rightarrow> 's \<Rightarrow> 'w \<Rightarrow> 'a list \<Rightarrow> 's \<Rightarrow> 'w \<Rightarrow> bool"
  for p :: "('s, 'w, 'a) stream_poller" and env :: "'w \<Rightarrow> 'w \<Rightarrow> bool" where
  none: "delivers p env s w [] s w"
| more: "resolves p env s w (Ret (Value (Some v))) s1 w1 \<Longrightarrow> delivers p env s1 w1 vs s' w'
    \<Longrightarrow> delivers p env s w (v # vs) s' w'"

inductive_simps delivers_simps [simp]:
  "delivers p env s w [] s' w'"
  "delivers p env s w (v # vs) s' w'"

inductive_simps emits_simps:
  "emits p env s w [] t w'"
  "emits p env s w (v # vs) t w'"

lemma emits_append:
  "emits p env s w (xs @ ys) t w' \<longleftrightarrow>
   (\<exists>s1 w1. delivers p env s w xs s1 w1 \<and> emits p env s1 w1 ys t w')"
  by (induction xs arbitrary: s w) (auto simp: emits_simps(2))

lemma delivers_append:
  "delivers p env s w (xs @ ys) s' w' \<longleftrightarrow>
   (\<exists>s1 w1. delivers p env s w xs s1 w1 \<and> delivers p env s1 w1 ys s' w')"
  by (induction xs arbitrary: s w) auto

definition relay :: "stream_end \<Rightarrow> stream_end" where
  "relay t = (case t of Broken \<Rightarrow> Thrown UsingUninitializedTry | _ \<Rightarrow> t)"

lemma ending_end_result [simp]: "ending (end_result None t) = Some (relay t)"
  by (cases t) (simp_all add: relay_def)

lemma ending_item: "ending y = Some t \<Longrightarrow> y \<noteq> Ret (Value (Some v))"
  by auto

text \<open>A stream can end in one way only after a final poll: the outcome determines it.\<close>

lemma stream_halt_ending:
  "stream_halt wrap on_exn on_eof result c s y = Some (r, obj) \<Longrightarrow>
   \<exists>t. ending y = Some t \<and> r = end_result (result c) t"
  by (cases y rule: stream_outcome_cases) auto

lemma stream_halt_of_ending:
  "ending y = Some t \<Longrightarrow>
   \<exists>obj. stream_halt wrap on_exn on_eof result c s y = Some (end_result (result c) t, obj)"
  by (cases y rule: stream_outcome_cases) auto

lemma collect_run:
  "(\<exists>obj. collect.stream_run p env vs s w r obj w') \<longleftrightarrow>
   (\<exists>xs t. emits p env s w xs t w' \<and> r = end_result (vs @ xs) t)"
proof
  assume "\<exists>obj. collect.stream_run p env vs s w r obj w'"
  then obtain obj where "collect.stream_run p env vs s w r obj w'" by blast
  then show "\<exists>xs t. emits p env s w xs t w' \<and> r = end_result (vs @ xs) t"
  proof (induction rule: collect.stream_run.induct)
    case (halt s w y s1 w1 c r obj)
    then obtain t where "ending y = Some t" "r = end_result c t"
      using stream_halt_ending [OF halt.hyps(2)] by auto
    then show ?case
      using halt.hyps(1) by (intro exI [of _ "[]"]) (auto intro: emits.finish)
  next
    case (item_go s w v s1 w1 c c' w2 r obj w')
    then obtain xs t where "emits p env s1 w1 xs t w'" "r = end_result (c @ v # xs) t"
      by auto
    then show ?case
      using item_go.hyps(1) by (intro exI [of _ "v # xs"]) (auto intro: emits.item)
  qed simp
next
  assume "\<exists>xs t. emits p env s w xs t w' \<and> r = end_result (vs @ xs) t"
  then obtain xs t where "emits p env s w xs t w'" "r = end_result (vs @ xs) t" by blast
  then show "\<exists>obj. collect.stream_run p env vs s w r obj w'"
  proof (induction arbitrary: vs rule: emits.induct)
    case (finish s w y s' w' t)
    from stream_halt_of_ending [OF finish.hyps(2), of "\<lambda>s vs. \<lparr>co_stream = Some s, co_vals = vs\<rparr>"
        "\<lambda>_ vs. \<lparr>co_stream = None, co_vals = vs\<rparr>" "\<lambda>_ _. \<lparr>co_stream = None, co_vals = []\<rparr>" "\<lambda>vs. vs"
        vs s']
    show ?case
      using finish by (auto intro: collect.stream_run.halt)
  next
    case (item s w v s1 w1 xs t w')
    then show ?case
      using item.IH [of "vs @ [v]"] by (auto intro: collect.stream_run.item_go)
  qed
qed

text \<open>
  C17 --- \<open>collect\<close>.  The collect future ends exactly as the stream does: at the end of the
  stream with the vector of all its items in order, otherwise with the stream's failure.
\<close>

theorem collect_spec:
  "yields (CollectStreamFuture_poll p) env (CollectStreamFuture_new s) w r w' \<longleftrightarrow>
   (\<exists>xs t. emits p env s w xs t w' \<and> r = end_result xs t)"
  using collect.yields_iff [of p env s "[]" w r w'] collect_run [of p env "[]" s w r w']
  by (simp add: CollectStreamFuture_new_def)

subsection \<open>Stream combinators as list functions\<close>

text \<open>A callback without side effects.\<close>

definition pure_callback :: "('a \<Rightarrow> 'b) \<Rightarrow> ('a, 'w, 'b) callback" where
  "pure_callback f x w = Some (Ret (f x), w)"

lemma ex_world_eq: "(\<exists>y s1 w1. A y s1 w1 \<and> B y s1 \<and> w' = w1) \<longleftrightarrow> (\<exists>y s1. A y s1 w' \<and> B y s1)"
  by blast

lemma resolves_map:
  "resolves (MapStream_poll p (pure_callback f)) env (Some s) w r obj w' \<longleftrightarrow>
   (\<exists>y s1. resolves p env s w y s1 w' \<and>
      ((\<exists>v. y = Ret (Value (Some v)) \<and> r = Ret (Value (Some (f v))) \<and> obj = Some s1) \<or>
       (\<exists>t. ending y = Some t \<and> r = end_result None t \<and>
          obj = (if t = Eof \<or> (\<exists>e. t = Failed e) then None else Some s1))))"
proof -
  let ?k = "\<lambda>y s1 w1. case y of
      Ret (Value (Some v)) \<Rightarrow> Some (Ret (makeStreamReady (f v)), Some s1, w1)
    | Ret (Value None) \<Rightarrow> Some (Ret makeStreamEof, None, w1)
    | Ret (Exception e) \<Rightarrow> Some (Ret (Exception e), None, w1)
    | Ret Nothing \<Rightarrow> Some (Throw UsingUninitializedTry, Some s1, w1)
    | Throw e \<Rightarrow> Some (Throw e, Some s1, w1)
    | Abort \<Rightarrow> Some (Abort, Some s1, w1)"
  have seq: "resolves (MapStream_poll p (pure_callback f)) env (Some s) w r obj w' \<longleftrightarrow>
      (\<exists>y s1 w1. resolves p env s w y s1 w1 \<and>
         settles (MapStream_poll p (pure_callback f)) env (?k y s1 w1) r obj w')"
    by (rule resolves_seq)
      (auto simp: MapStream_poll_def pure_callback_def call_def split: option.split outcome.split Try.split)
  have settle: "settles (MapStream_poll p (pure_callback f)) env (?k y s1 w1) r obj w' \<longleftrightarrow>
      ((\<exists>v. y = Ret (Value (Some v)) \<and> r = Ret (Value (Some (f v))) \<and> obj = Some s1) \<or>
       (\<exists>t. ending y = Some t \<and> r = end_result None t \<and>
          obj = (if t = Eof \<or> (\<exists>e. t = Failed e) then None else Some s1))) \<and> w' = w1" for y s1 w1
    by (cases y rule: stream_outcome_cases)
      (auto simp: settles_def makeStreamReady_def makeStreamEof_def)
  show ?thesis unfolding seq settle by (rule ex_world_eq)
qed

lemma end_result_not_item [simp]: "end_result None t \<noteq> Ret (Value (Some v))"
  "Ret (Value (Some v)) \<noteq> end_result None t"
  by (cases t; simp)+

lemma resolves_map_item:
  "resolves (MapStream_poll p (pure_callback f)) env (Some s) w (Ret (Value (Some b))) obj w' \<longleftrightarrow>
   (\<exists>v s1. resolves p env s w (Ret (Value (Some v))) s1 w' \<and> b = f v \<and> obj = Some s1)"
  unfolding resolves_map by auto

lemma resolves_map_end:
  "(\<exists>r obj. resolves (MapStream_poll p (pure_callback f)) env (Some s) w r obj w' \<and> ending r = Some t) \<longleftrightarrow>
   (\<exists>y s1 t0. resolves p env s w y s1 w' \<and> ending y = Some t0 \<and> t = relay t0)"
proof
  assume "\<exists>r obj. resolves (MapStream_poll p (pure_callback f)) env (Some s) w r obj w' \<and> ending r = Some t"
  then show "\<exists>y s1 t0. resolves p env s w y s1 w' \<and> ending y = Some t0 \<and> t = relay t0"
    unfolding resolves_map by (elim exE conjE disjE) auto
next
  assume "\<exists>y s1 t0. resolves p env s w y s1 w' \<and> ending y = Some t0 \<and> t = relay t0"
  then show "\<exists>r obj. resolves (MapStream_poll p (pure_callback f)) env (Some s) w r obj w' \<and> ending r = Some t"
    unfolding resolves_map by (metis ending_end_result)
qed

lemma emits_map:
  "emits (MapStream_poll p (pure_callback f)) env (Some s) w ys t w' \<longleftrightarrow>
   (\<exists>xs t0. emits p env s w xs t0 w' \<and> ys = map f xs \<and> t = relay t0)"
    (is "?L s w ys \<longleftrightarrow> ?R s w ys")
proof (induction ys arbitrary: s w)
  case Nil
  show ?case
    using resolves_map_end [of p f env s w w' t] by (auto simp: emits_simps(1))
next
  case (Cons y ys)
  have eq: "?L s w (y # ys) \<longleftrightarrow>
     (\<exists>v s1 w1. resolves p env s w (Ret (Value (Some v))) s1 w1 \<and> y = f v \<and> ?R s1 w1 ys)" (is "_ \<longleftrightarrow> ?M")
    unfolding emits_simps(2) resolves_map_item Cons.IH [symmetric] by blast
  have "?R s w (y # ys)" if ?M
  proof -
    from that obtain v s1 w1 xs t0 where "resolves p env s w (Ret (Value (Some v))) s1 w1" "y = f v"
        "emits p env s1 w1 xs t0 w'" "ys = map f xs" "t = relay t0"
      by (elim exE conjE)
    then show ?thesis
      by (intro exI [of _ "v # xs"] exI [of _ t0]) (auto intro: emits.item)
  qed
  moreover have ?M if "?R s w (y # ys)"
  proof -
    from that obtain xs t0 where xs: "emits p env s w xs t0 w'" "y # ys = map f xs" "t = relay t0"
      by (elim exE conjE)
    then obtain v vs where v: "xs = v # vs" "y = f v" "ys = map f vs"
      by (cases xs) auto
    then obtain s1 w1 where "resolves p env s w (Ret (Value (Some v))) s1 w1" "emits p env s1 w1 vs t0 w'"
      using xs(1) by (auto simp: emits_simps(2))
    then show ?thesis
      using v(2,3) xs(3) by (intro exI [of _ v] exI [of _ s1] exI [of _ w1]) auto
  qed
  ultimately show ?case
    unfolding eq by (rule iffI)
qed

text \<open>\<open>filter\<close>: the items that are skipped are polled away inside one call.\<close>

lemma filter_run:
  assumes "filters.stream_run p (pure_callback P) env c s w r obj w'"
  shows "(\<exists>xs v s1. delivers p env s w (xs @ [v]) s1 w' \<and> filter P xs = [] \<and> P v \<and>
            r = Ret (Value (Some v)) \<and> obj = Some s1) \<or>
         (\<exists>xs t. emits p env s w xs t w' \<and> filter P xs = [] \<and> r = end_result None t)"
  using assms
proof (induction rule: filters.stream_run.induct)
  case (halt s w y s1 w1 c r obj)
  then show ?case
    using stream_halt_ending [OF halt.hyps(2)] by (auto intro!: exI [of _ "[]"] emits.finish)
next
  case (item_stop s w v s1 w1 c x w2 r)
  then show ?case
    by (intro disjI1 exI [of _ "[]"] exI [of _ v] exI [of _ s1])
      (auto simp: filter_item_def pure_callback_def makePollReady_def split: if_splits)
next
  case (item_go s w v s1 w1 c c' w2 r obj w')
  then have skip: "\<not> P v" "w2 = w1"
    by (auto simp: filter_item_def pure_callback_def split: if_splits)
  from item_go.IH show ?case
  proof (elim disjE exE conjE)
    fix xs u s2
    assume "delivers p env s1 w2 (xs @ [u]) s2 w'" "filter P xs = []" "P u"
      "r = Ret (Value (Some u))" "obj = Some s2"
    then show ?thesis
      using item_go.hyps(1) skip
      by (intro disjI1 exI [of _ "v # xs"] exI [of _ u] exI [of _ s2]) auto
  next
    fix xs t
    assume "emits p env s1 w2 xs t w'" "filter P xs = []" "r = end_result None t"
    then show ?thesis
      using item_go.hyps(1) skip
      by (intro disjI2 exI [of _ "v # xs"] exI [of _ t]) (auto intro: emits.item)
  qed
qed

lemma filter_item_pure:
  "P v \<Longrightarrow> filter_item (pure_callback P) v c w = Some (Inr (Ret (makePollReady (Some v))), w)"
  "\<not> P v \<Longrightarrow> filter_item (pure_callback P) v c w = Some (Inl (), w)"
  by (simp_all add: filter_item_def pure_callback_def)

lemma filter_run_item:
  assumes "delivers p env s w (xs @ [v]) s1 w'" "filter P xs = []" "P v"
  shows "filters.stream_run p (pure_callback P) env () s w (Ret (Value (Some v))) (Some s1) w'"
  using assms
proof (induction xs arbitrary: s w)
  case Nil
  then have "resolves p env s w (Ret (Value (Some v))) s1 w'"
    by auto
  from filters.stream_run.item_stop [OF this filter_item_pure(1) [of P, OF Nil.prems(3)]]
  show ?case
    by (simp add: makePollReady_def)
next
  case (Cons x xs)
  then obtain s2 w2 where x: "resolves p env s w (Ret (Value (Some x))) s2 w2"
      "delivers p env s2 w2 (xs @ [v]) s1 w'" "\<not> P x"
    by (auto split: if_splits)
  show ?case
    using Cons.IH [OF x(2)] Cons.prems(2,3) x(3)
    by (intro filters.stream_run.item_go [OF x(1) filter_item_pure(2)]) auto
qed

lemma filter_run_end:
  assumes "emits p env s w xs t w'" "filter P xs = []"
  shows "\<exists>obj. filters.stream_run p (pure_callback P) env () s w (end_result None t) obj w'"
  using assms
proof (induction rule: emits.induct)
  case (finish s w y s' w' t)
  from stream_halt_of_ending [OF finish.hyps(2), of "\<lambda>s _. Some s" "\<lambda>_ _. None" "\<lambda>_ _. None"
      "\<lambda>_. None" "()" s']
  show ?case
    using finish.hyps(1) by (auto intro: filters.stream_run.halt)
next
  case (item s w v s1 w1 vs t w')
  then have "\<not> P v" "filter P vs = []"
    by (auto split: if_splits)
  then show ?case
    using item.IH filters.stream_run.item_go [OF item.hyps(1) filter_item_pure(2) [of P]] by blast
qed

lemma resolves_filter:
  "resolves (FilterStream_poll p (pure_callback P)) env (Some s) w r obj w' \<longleftrightarrow>
   filters.stream_run p (pure_callback P) env () s w r obj w'"
  by (rule filters.resolves_iff)

lemma resolves_filter_item:
  "resolves (FilterStream_poll p (pure_callback P)) env (Some s) w (Ret (Value (Some v))) obj w' \<longleftrightarrow>
   (\<exists>xs s1. delivers p env s w (xs @ [v]) s1 w' \<and> filter P xs = [] \<and> P v \<and> obj = Some s1)"
  unfolding resolves_filter using filter_run [of p P env "()" s w] filter_run_item [of p env s w]
  by fastforce

lemma emits_filter:
  "emits (FilterStream_poll p (pure_callback P)) env (Some s) w ys t w' \<longleftrightarrow>
   (\<exists>xs t0. emits p env s w xs t0 w' \<and> ys = filter P xs \<and> t = relay t0)"
    (is "?L s w ys \<longleftrightarrow> ?R s w ys")
proof (induction ys arbitrary: s w)
  case Nil
  show ?case
  proof
    assume "?L s w []"
    then obtain y obj where "filters.stream_run p (pure_callback P) env () s w y obj w'" "ending y = Some t"
      by (auto simp: emits_simps(1) resolves_filter)
    then show "?R s w []"
      using filter_run [of p P env "()" s w y obj w'] by force
  next
    assume "?R s w []"
    then show "?L s w []"
      using filter_run_end [of p env s w _ _ w' P] unfolding emits_simps(1) resolves_filter
      by (metis ending_end_result)
  qed
next
  case (Cons y ys)
  show ?case
  proof
    assume "?L s w (y # ys)"
    then obtain xs s1 w1 where "delivers p env s w (xs @ [y]) s1 w1" "filter P xs = []" "P y" "?L s1 w1 ys"
      unfolding emits_simps(2) resolves_filter_item by blast
    moreover from this obtain zs t0 where "emits p env s1 w1 zs t0 w'" "ys = filter P zs" "t = relay t0"
      unfolding Cons.IH by blast
    ultimately have "emits p env s w ((xs @ [y]) @ zs) t0 w'" "y # ys = filter P ((xs @ [y]) @ zs)"
      unfolding emits_append by (blast, simp)
    then show "?R s w (y # ys)"
      using \<open>t = relay t0\<close> by blast
  next
    assume "?R s w (y # ys)"
    then obtain xs t0 where xs: "emits p env s w xs t0 w'" "y # ys = filter P xs" "t = relay t0"
      by blast
    then obtain us vs where us: "xs = (us @ [y]) @ vs" "filter P us = []" "P y" "ys = filter P vs"
      by (metis Cons_eq_filterD append.assoc append_Cons append_Nil filter_empty_conv)
    then obtain s1 w1 where "delivers p env s w (us @ [y]) s1 w1" "emits p env s1 w1 vs t0 w'"
      using xs(1) unfolding us(1) emits_append by blast
    moreover from this have "?L s1 w1 ys"
      using Cons.IH us(4) xs(3) by blast
    ultimately show "?L s w (y # ys)"
      using us(2,3) unfolding emits_simps(2) resolves_filter_item by blast
  qed
qed

text \<open>\<open>take\<close>: the inner stream is not polled again after the last item wanted.\<close>

lemma resolves_take:
  assumes "n > 0"
  shows "resolves (TakeStream_poll p) env \<lparr>tk_stream = Some s, tk_remain = n\<rparr> w r obj w' \<longleftrightarrow>
   (\<exists>y s1. resolves p env s w y s1 w' \<and>
      ((\<exists>v. y = Ret (Value v) \<and> r = Ret (Value v) \<and> obj = \<lparr>tk_stream = Some s1, tk_remain = n - 1\<rparr>) \<or>
       (\<exists>t. ending y = Some t \<and> t \<noteq> Eof \<and> r = end_result None t \<and>
          obj = \<lparr>tk_stream = (if \<exists>e. t = Failed e then None else Some s1), tk_remain = n\<rparr>)))"
proof -
  let ?emb = "\<lambda>s. \<lparr>tk_stream = Some s, tk_remain = n\<rparr>"
  let ?k = "\<lambda>y s1 w1. case y of
      Ret (Value v) \<Rightarrow> Some (Ret (makePollReady v), \<lparr>tk_stream = Some s1, tk_remain = n - 1\<rparr>, w1)
    | Ret (Exception e) \<Rightarrow> Some (Ret (Exception e), \<lparr>tk_stream = None, tk_remain = n\<rparr>, w1)
    | Ret Nothing \<Rightarrow> Some (Throw UsingUninitializedTry, ?emb s1, w1)
    | Throw e \<Rightarrow> Some (Throw e, ?emb s1, w1)
    | Abort \<Rightarrow> Some (Abort, ?emb s1, w1)"
  have seq: "resolves (TakeStream_poll p) env (?emb s) w r obj w' \<longleftrightarrow>
      (\<exists>y s1 w1. resolves p env s w y s1 w1 \<and> settles (TakeStream_poll p) env (?k y s1 w1) r obj w')"
    by (rule resolves_seq)
      (use assms in \<open>auto simp: TakeStream_poll_def call_def split: option.split outcome.split Try.split\<close>)
  have settle: "settles (TakeStream_poll p) env (?k y s1 w1) r obj w' \<longleftrightarrow>
      ((\<exists>v. y = Ret (Value v) \<and> r = Ret (Value v) \<and> obj = \<lparr>tk_stream = Some s1, tk_remain = n - 1\<rparr>) \<or>
       (\<exists>t. ending y = Some t \<and> t \<noteq> Eof \<and> r = end_result None t \<and>
          obj = \<lparr>tk_stream = (if \<exists>e. t = Failed e then None else Some s1), tk_remain = n\<rparr>)) \<and> w' = w1"
    for y s1 w1
    by (cases y rule: stream_outcome_cases) (auto simp: settles_def makePollReady_def)
  show ?thesis unfolding seq settle by (rule ex_world_eq)
qed

lemma resolves_take_done:
  "resolves (TakeStream_poll p) env \<lparr>tk_stream = st, tk_remain = 0\<rparr> w r obj w' \<longleftrightarrow>
   r = Ret (Value None) \<and> obj = \<lparr>tk_stream = None, tk_remain = 0\<rparr> \<and> w' = w"
  by (auto simp: resolves_unfold settles_def TakeStream_poll_def makeStreamEof_def)

lemma resolves_take_item:
  "n > 0 \<Longrightarrow> resolves (TakeStream_poll p) env \<lparr>tk_stream = Some s, tk_remain = n\<rparr> w
      (Ret (Value (Some v))) obj w' \<longleftrightarrow>
   (\<exists>s1. resolves p env s w (Ret (Value (Some v))) s1 w' \<and> obj = \<lparr>tk_stream = Some s1, tk_remain = n - 1\<rparr>)"
  unfolding resolves_take by auto

lemma ex_push:
  "(\<exists>r obj. (\<exists>y s1. A y s1 \<and> B y s1 r obj) \<and> C r) \<longleftrightarrow> (\<exists>y s1. A y s1 \<and> (\<exists>r obj. B y s1 r obj \<and> C r))"
  by blast

lemma resolves_take_end:
  assumes "n > 0"
  shows "(\<exists>r obj. resolves (TakeStream_poll p) env \<lparr>tk_stream = Some s, tk_remain = n\<rparr> w r obj w' \<and>
      ending r = Some t) \<longleftrightarrow>
   (\<exists>y s1 t0. resolves p env s w y s1 w' \<and> ending y = Some t0 \<and> t = relay t0)"
proof -
  have *: "(\<exists>r obj. ((\<exists>v. y = Ret (Value v) \<and> r = Ret (Value v) \<and> obj = \<lparr>tk_stream = Some s1, tk_remain = n - 1\<rparr>) \<or>
       (\<exists>t. ending y = Some t \<and> t \<noteq> Eof \<and> r = end_result None t \<and>
          obj = \<lparr>tk_stream = (if \<exists>e. t = Failed e then None else Some s1), tk_remain = n\<rparr>)) \<and>
        ending r = Some t) \<longleftrightarrow> (\<exists>t0. ending y = Some t0 \<and> t = relay t0)"
    for y s1
    by (cases y rule: stream_outcome_cases) (auto simp: relay_def)
  show ?thesis
    unfolding resolves_take [OF assms] ex_push * by simp
qed

lemma emits_take:
  "emits (TakeStream_poll p) env \<lparr>tk_stream = Some s, tk_remain = n\<rparr> w ys t w' \<longleftrightarrow>
   (length ys = n \<and> t = Eof \<and> (\<exists>s1. delivers p env s w ys s1 w')) \<or>
   (length ys < n \<and> (\<exists>t0. emits p env s w ys t0 w' \<and> t = relay t0))"
proof (induction ys arbitrary: s w n)
  case Nil
  show ?case
  proof (cases "n = 0")
    case True
    then show ?thesis by (auto simp: emits_simps(1) resolves_take_done)
  next
    case False
    then show ?thesis
      using resolves_take_end [of n p env s w w' t] by (auto simp: emits_simps(1))
  qed
next
  case (Cons y ys)
  show ?case
  proof (cases "n = 0")
    case True
    then show ?thesis by (simp add: emits_simps(2) resolves_take_done)
  next
    case False
    then obtain m where n: "n = Suc m" by (cases n) auto
    have step: "emits (TakeStream_poll p) env \<lparr>tk_stream = Some s, tk_remain = Suc m\<rparr> w (y # ys) t w' \<longleftrightarrow>
       (\<exists>s1 w1. resolves p env s w (Ret (Value (Some y))) s1 w1 \<and>
          emits (TakeStream_poll p) env \<lparr>tk_stream = Some s1, tk_remain = m\<rparr> w1 ys t w')"
      unfolding emits_simps(2) resolves_take_item [OF zero_less_Suc] by auto
    show ?thesis
      unfolding n step Cons.IH
      by (simp only: delivers_simps emits_simps(2) [of p] length_Cons nat.inject Suc_less_eq) blast
  qed
qed

text \<open>Sources.\<close>

lemma resolves_nTimes:
  "resolves nTimes_poll env \<lparr>is_it = i, is_end = n\<rparr> w r obj w' \<longleftrightarrow>
   w' = w \<and> (if i = n then r = Ret (Value None) \<and> obj = \<lparr>is_it = i, is_end = n\<rparr>
     else r = Ret (Value (Some i)) \<and> obj = \<lparr>is_it = i + 1, is_end = n\<rparr>)"
  by (auto simp: resolves_unfold settles_def nTimes_poll_def IterStream_poll_def makePollReady_def)

lemma emits_nTimes_from:
  assumes "i \<le> n"
  shows "emits nTimes_poll env \<lparr>is_it = i, is_end = n\<rparr> w xs t w' \<longleftrightarrow> xs = [i..n - 1] \<and> t = Eof \<and> w' = w"
  using assms
proof (induction "nat (n - i)" arbitrary: i xs)
  case 0
  then show ?case
    by (cases xs) (auto simp: emits_simps resolves_nTimes)
next
  case (Suc k)
  then have "i \<noteq> n" "k = nat (n - (i + 1))" "i + 1 \<le> n" by auto
  then show ?case
    using Suc.hyps(1) [of "i + 1"]
    by (cases xs) (auto simp: emits_simps resolves_nTimes upto_rec1 [of i])
qed

lemma emits_nTimes:
  "0 \<le> n \<Longrightarrow> emits nTimes_poll env (nTimes n) w xs t w' \<longleftrightarrow> xs = [0..n - 1] \<and> t = Eof \<and> w' = w"
  by (simp add: nTimes_def emits_nTimes_from)

text \<open>
  C18 --- \<open>map\<close>, \<open>filter\<close> and \<open>take\<close> are the list functions on what a stream emits.  A mapped
  stream emits the images, a filtered one the items that satisfy the predicate, both ending
  as the source ends; \<open>take(n)\<close> emits the first \<open>n\<close> items and ends without polling the source
  again, or ends with the source when that is shorter.
\<close>

theorem stream_combinators_spec:
  "(emits (MapStream_poll p (pure_callback f)) env (Some s) w ys t w' \<longleftrightarrow>
     (\<exists>xs t0. emits p env s w xs t0 w' \<and> ys = map f xs \<and> t = relay t0)) \<and>
   (emits (FilterStream_poll p (pure_callback P)) env (Some s) w zs t w' \<longleftrightarrow>
     (\<exists>xs t0. emits p env s w xs t0 w' \<and> zs = filter P xs \<and> t = relay t0)) \<and>
   (emits (TakeStream_poll p) env \<lparr>tk_stream = Some s, tk_remain = n\<rparr> w zs t w' \<longleftrightarrow>
     (length zs = n \<and> t = Eof \<and> (\<exists>s1. delivers p env s w zs s1 w')) \<or>
     (length zs < n \<and> (\<exists>t0. emits p env s w zs t0 w' \<and> t = relay t0)))"
  by (intro conjI emits_map emits_filter emits_take)

text \<open>
  C19 --- a pipeline over \<open>nTimes(n)\<close>: collecting the mapped and filtered counter stream always
  ends with the list computed from \<open>0, ..., n - 1\<close>, and nothing else can happen.
\<close>

theorem nTimes_pipeline:
  assumes "0 \<le> n"
  shows "yields (CollectStreamFuture_poll (MapStream_poll (FilterStream_poll nTimes_poll (pure_callback P))
      (pure_callback f))) env (CollectStreamFuture_new (Some (Some (nTimes n)))) w r w' \<longleftrightarrow>
    r = Ret (Value (map f (filter P [0..n - 1]))) \<and> w' = w"
proof -
  have "(\<exists>xs t. emits (MapStream_poll (FilterStream_poll nTimes_poll (pure_callback P))
      (pure_callback f)) env (Some (Some (nTimes n))) w xs t w' \<and> r = end_result xs t) \<longleftrightarrow>
    r = Ret (Value (map f (filter P [0..n - 1]))) \<and> w' = w"
    unfolding emits_map emits_filter emits_nTimes [OF assms] by (auto simp: relay_def)
  then show ?thesis
    unfolding collect.yields_iff [of _ env _ "[]", folded CollectStreamFuture_new_def] collect_run
    by simp
qed

theorem nTimes_pipeline_witness:
  "(0 :: int) \<le> 5 \<and>
   yields (CollectStreamFuture_poll (MapStream_poll (FilterStream_poll nTimes_poll (pure_callback even))
      (pure_callback (\<lambda>x. x * x)))) (=) (CollectStreamFuture_new (Some (Some (nTimes 5)))) ()
      (Ret (Value [0, 4, 16])) ()"
proof -
  have "map (\<lambda>x. x * x) (filter even [0 .. 5 - 1 :: int]) = [0, 4, 16]"
    by (simp add: upto_rec1)
  then show ?thesis
    using nTimes_pipeline [of 5 even "\<lambda>x. x * x" "(=)" "()" "Ret (Value [0, 4, 16])" "()"] by simp
qed

end
