(* ===== verification/Channels.thy ===== *)
theory Channels
  imports Streams "HOL-Library.Word"
begin

text \<open>
  The channels of \<open>channel/\<close> and the promise of \<open>Promise.h\<close>: \<open>OneShotChannel.h\<close>,
  \<open>UnboundedMPSCChannel.h\<close>, the handles of \<open>ChannelBase.h\<close>, and \<open>ChannelStream.h\<close>.  Every
  operation takes the channel's lock, so it is one step on the channel state and the
  world, in which \<open>unpark\<close> is logged.

  The lemmas: a waiting receiver is never left behind, values arrive in the order in which
  they were sent, and a receiver stream delivers exactly what was sent before it ends.
\<close>

subsection \<open>OneShotChannel\<close>

datatype os_status = NotReady | Ready | Closed

record 'a oneshot =
  os_s :: os_status
  os_v :: "'a option"
  os_rx_task :: "nat option"

definition oneshot_new :: "'a oneshot" where
  "oneshot_new = \<lparr>os_s = NotReady, os_v = None, os_rx_task = None\<rparr>"

definition oneshot_notify ::
  "'a oneshot \<Rightarrow> 'z task_world_scheme \<Rightarrow> 'a oneshot \<times> 'z task_world_scheme" where
  "oneshot_notify c w =
     (c\<lparr>os_rx_task := None\<rparr>, (case os_rx_task c of Some t \<Rightarrow> Task_unpark t w | None \<Rightarrow> w))"

definition oneshot_send ::
  "'a \<Rightarrow> 'a oneshot \<Rightarrow> 'z task_world_scheme \<Rightarrow> bool outcome \<times> 'a oneshot \<times> 'z task_world_scheme" where
  "oneshot_send v c w =
     (if os_s c = Closed then (Ret False, c, w)
      else if os_s c \<noteq> NotReady then (Throw InvalidChannelStateException, c, w)
      else (let (c', w') = oneshot_notify (c\<lparr>os_v := Some v, os_s := Ready\<rparr>) w in (Ret True, c', w')))"

text \<open>Reading the value moves it out of the storage but leaves the \<open>Optional\<close> engaged.\<close>

definition oneshot_poll :: "('a \<Rightarrow> 'a) \<Rightarrow> ('a oneshot, 'z task_world_scheme, 'a) poller" where
  "oneshot_poll moved c w =
     (if os_s c = Closed then Some (Ret (Exception (FutureCancelled CancelUnknown)), c, w)
      else if os_s c = Ready
      then (case os_v c of
              Some v \<Rightarrow> Some (Ret (Value (Some v)), c\<lparr>os_v := Some (moved v)\<rparr>, w)
            | None \<Rightarrow> Some (Ret (Exception (FutureCancelled CancelUnknown)), c, w))
      else (case CurrentTask_park w of
              Ret t \<Rightarrow> Some (Ret not_ready, c\<lparr>os_rx_task := Some t\<rparr>, w)
            | Throw e \<Rightarrow> Some (Throw e, c, w)
            | Abort \<Rightarrow> Some (Abort, c, w)))"

definition oneshot_cancel ::
  "'a oneshot \<Rightarrow> 'z task_world_scheme \<Rightarrow> unit outcome \<times> 'a oneshot \<times> 'z task_world_scheme" where
  "oneshot_cancel c w =
     (if os_s c = Ready then (Throw InvalidChannelStateException, c, w)
      else (let (c', w') = oneshot_notify (c\<lparr>os_s := Ready\<rparr>) w in (Ret (), c', w')))"

definition oneshot_closeSender ::
  "'a oneshot \<Rightarrow> 'z task_world_scheme \<Rightarrow> 'a oneshot \<times> 'z task_world_scheme" where
  "oneshot_closeSender c w =
     (if os_s c = NotReady then oneshot_notify (c\<lparr>os_s := Closed\<rparr>) w else (c, w))"

definition oneshot_closeReceiver :: "'a oneshot \<Rightarrow> 'a oneshot" where
  "oneshot_closeReceiver c = c\<lparr>os_s := Closed\<rparr>"

subsection \<open>Promise\<close>

text \<open>
  A promise future is a receiver, or a value that was ready from the start; \<open>recv_\<close> of the
  latter has no channel, and polling it after the value was moved out would dereference it.
\<close>

record 'a promise_future =
  pf_recv :: "'a Try oneshot option"
  pf_v :: "'a Try"

text \<open>The residue of a moved \<open>Try\<close> keeps its tag.\<close>

definition moved_try :: "('a \<Rightarrow> 'a) \<Rightarrow> 'a Try \<Rightarrow> 'a Try" where
  "moved_try moved t = snd (try_move_construct moved t)"

definition PromiseFuture_poll ::
  "('a \<Rightarrow> 'a) \<Rightarrow> ('a promise_future, 'z task_world_scheme, 'a) poller" where
  "PromiseFuture_poll moved f w =
     (if try_hasException (pf_v f) \<or> try_hasValue (pf_v f)
      then (case makePollReadyTry (pf_v f) of
              Ret p \<Rightarrow> Some (Ret p,
                f\<lparr>pf_v := (case pf_v f of Value x \<Rightarrow> Value (moved x) | _ \<Rightarrow> pf_v f)\<rparr>, w)
            | Throw e \<Rightarrow> Some (Throw e, f, w)
            | Abort \<Rightarrow> Some (Abort, f, w))
      else
        (case pf_recv f of
           None \<Rightarrow> Some (Abort, f, w)
         | Some c \<Rightarrow>
             call (oneshot_poll (moved_try moved) c w) (\<lambda>c'. f\<lparr>pf_recv := Some c'\<rparr>)
               (\<lambda>p c' w'.
                  let f' = f\<lparr>pf_recv := Some c'\<rparr> in
                  case p of
                    Exception e \<Rightarrow> Some (Ret (Exception e), f', w')
                  | Nothing \<Rightarrow> Some (Throw UsingUninitializedTry, f', w')
                  | Value None \<Rightarrow> Some (Ret not_ready, f', w')
                  | Value (Some t) \<Rightarrow>
                      (case makePollReadyTry t of
                         Ret r \<Rightarrow> Some (Ret r, f', w')
                       | Throw e \<Rightarrow> Some (Throw e, f', w')
                       | Abort \<Rightarrow> Some (Abort, f', w')))))"

definition makeReadyPromiseFuture :: "'a \<Rightarrow> 'a promise_future" where
  "makeReadyPromiseFuture v = \<lparr>pf_recv = None, pf_v = Value v\<rparr>"

text \<open>The promise itself: its two handles share the channel; \<open>getFuture\<close> moves one out.\<close>

record promise_handles =
  pr_sender :: bool
  pr_receiver :: bool

definition Promise_new :: "promise_handles \<times> 'a Try oneshot" where
  "Promise_new = (\<lparr>pr_sender = True, pr_receiver = True\<rparr>, oneshot_new)"

definition Promise_getFuture :: "promise_handles \<Rightarrow> unit outcome \<times> promise_handles" where
  "Promise_getFuture p =
     (if \<not> pr_receiver p then (Throw PromiseException, p) else (Ret (), p\<lparr>pr_receiver := False\<rparr>))"

definition Promise_setValue ::
  "promise_handles \<Rightarrow> 'a \<Rightarrow> 'a Try oneshot \<Rightarrow> 'z task_world_scheme
   \<Rightarrow> bool outcome \<times> 'a Try oneshot \<times> 'z task_world_scheme" where
  "Promise_setValue p v c w = (if pr_sender p then oneshot_send (Value v) c w else (Abort, c, w))"

definition Promise_setException ::
  "promise_handles \<Rightarrow> exn \<Rightarrow> 'a Try oneshot \<Rightarrow> 'z task_world_scheme
   \<Rightarrow> unit outcome \<times> 'a Try oneshot \<times> 'z task_world_scheme" where
  "Promise_setException p e c w =
     (if pr_sender p
      then (case oneshot_send (Exception e) c w of
              (Ret _, c', w') \<Rightarrow> (Ret (), c', w')
            | (Throw x, c', w') \<Rightarrow> (Throw x, c', w')
            | (Abort, c', w') \<Rightarrow> (Abort, c', w'))
      else (Abort, c, w))"

definition Promise_cancel ::
  "promise_handles \<Rightarrow> 'a Try oneshot \<Rightarrow> 'z task_world_scheme
   \<Rightarrow> unit outcome \<times> 'a Try oneshot \<times> 'z task_world_scheme" where
  "Promise_cancel p c w = (if pr_sender p then oneshot_cancel c w else (Abort, c, w))"

subsection \<open>UnboundedMPSCChannel\<close>

text \<open>\<open>senders_\<close> is an \<open>atomic_size_t\<close>.\<close>

record 'a mpsc =
  mp_q :: "'a list"
  mp_rx_task :: "nat option"
  mp_recv_closed :: bool
  mp_sender_closed :: bool
  mp_senders :: "64 word"

definition mpsc_new :: "'a mpsc" where
  "mpsc_new = \<lparr>mp_q = [], mp_rx_task = None, mp_recv_closed = False, mp_sender_closed = False,
     mp_senders = 0\<rparr>"

definition mpsc_unpark :: "'a mpsc \<Rightarrow> 'z task_world_scheme \<Rightarrow> 'z task_world_scheme" where
  "mpsc_unpark c w = (case mp_rx_task c of Some t \<Rightarrow> Task_unpark t w | None \<Rightarrow> w)"

definition mpsc_send ::
  "'a \<Rightarrow> 'a mpsc \<Rightarrow> 'z task_world_scheme \<Rightarrow> bool \<times> 'a mpsc \<times> 'z task_world_scheme" where
  "mpsc_send v c w =
     (if mp_recv_closed c then (False, c, w)
      else (True, c\<lparr>mp_q := mp_q c @ [v]\<rparr>, mpsc_unpark c w))"

definition mpsc_poll :: "('a mpsc, 'z task_world_scheme, 'a) poller" where
  "mpsc_poll c w =
     (if mp_recv_closed c then Some (Ret (Exception InvalidPollStateException), c, w)
      else
        (case mp_q c of
           [] \<Rightarrow>
             if mp_sender_closed c
             then Some (Ret (Exception (FutureCancelled CancelUnknown)), c\<lparr>mp_rx_task := None\<rparr>, w)
             else (case CurrentTask_park w of
                     Ret t \<Rightarrow> Some (Ret not_ready, c\<lparr>mp_rx_task := Some t\<rparr>, w)
                   | Throw e \<Rightarrow> Some (Throw e, c, w)
                   | Abort \<Rightarrow> Some (Abort, c, w))
         | v # q \<Rightarrow> Some (Ret (makePollReady v), c\<lparr>mp_q := q\<rparr>, w)))"

definition mpsc_addSender :: "'a mpsc \<Rightarrow> 'a mpsc" where
  "mpsc_addSender c = c\<lparr>mp_senders := mp_senders c + 1\<rparr>"

definition mpsc_closeSender ::
  "'a mpsc \<Rightarrow> 'z task_world_scheme \<Rightarrow> 'a mpsc \<times> 'z task_world_scheme" where
  "mpsc_closeSender c w =
     (let t = mp_senders c;
          c1 = c\<lparr>mp_senders := t - 1\<rparr> in
      if t \<le> 1 then (c1\<lparr>mp_sender_closed := True\<rparr>, mpsc_unpark c1 w) else (c1, w))"

definition mpsc_closeReceiver :: "'a mpsc \<Rightarrow> 'a mpsc" where
  "mpsc_closeReceiver c = c\<lparr>mp_recv_closed := True, mp_rx_task := None\<rparr>"

definition mpsc_cancel :: "'a mpsc \<Rightarrow> unit outcome" where
  "mpsc_cancel c = Throw InvalidChannelStateException"

subsection \<open>Handles\<close>

text \<open>
  Sender handles over a heap of channels: a handle is an optional channel address.  The
  constructor counts the sender; the destructor closes it; the copy assignment of
  \<open>UnboundedMPSCChannelSender\<close> only overwrites the pointer.
\<close>

type_synonym 'a mpsc_heap = "nat \<Rightarrow> 'a mpsc"

definition sender_construct :: "nat \<Rightarrow> 'a mpsc_heap \<Rightarrow> nat option \<times> 'a mpsc_heap" where
  "sender_construct a h = (Some a, h(a := mpsc_addSender (h a)))"

definition sender_copy :: "nat option \<Rightarrow> 'a mpsc_heap \<Rightarrow> (nat option \<times> 'a mpsc_heap) option" where
  "sender_copy o1 h = (case o1 of Some a \<Rightarrow> Some (sender_construct a h) | None \<Rightarrow> None)"

definition sender_destroy ::
  "nat option \<Rightarrow> 'a mpsc_heap \<Rightarrow> 'z task_world_scheme \<Rightarrow> 'a mpsc_heap \<times> 'z task_world_scheme" where
  "sender_destroy o1 h w =
     (case o1 of
        None \<Rightarrow> (h, w)
      | Some a \<Rightarrow> (let (c, w') = mpsc_closeSender (h a) w in (h(a := c), w')))"

definition sender_copy_assign :: "nat option \<Rightarrow> nat option \<Rightarrow> 'a mpsc_heap \<Rightarrow> nat option \<times> 'a mpsc_heap" where
  "sender_copy_assign dst src h = (src, h)"

subsection \<open>ReceiverStream\<close>

definition ReceiverStream_poll :: "('r, 'w, 'a) poller \<Rightarrow> ('r, 'w, 'a) stream_poller" where
  "ReceiverStream_poll p s w =
     call (p s w) id
       (\<lambda>r s' w'.
          case r of
            Exception e \<Rightarrow>
              if is_cancelled e then Some (Ret (makePollReady None), s', w')
              else Some (Ret (Exception e), s', w')
          | Nothing \<Rightarrow> Some (Throw UsingUninitializedTry, s', w')
          | Value (Some v) \<Rightarrow> Some (Ret (makePollReady (Some v)), s', w')
          | Value None \<Rightarrow> Some (Ret not_ready, s', w'))"

subsection \<open>Wake-ups and order\<close>

text \<open>
  Runs of a oneshot channel by one sender side and one receiver.  The last component is the
  task of the receiver while its last poll was pending and it has not been unparked since.
\<close>

definition still_waiting :: "nat option \<Rightarrow> 'z task_world_scheme \<Rightarrow> 'z task_world_scheme \<Rightarrow> nat option" where
  "still_waiting r w w' =
     (case r of
        None \<Rightarrow> None
      | Some t \<Rightarrow> if t \<in> set (drop (length (tw_unparked w)) (tw_unparked w')) then None else Some t)"

lemma still_waiting_same [simp]: "still_waiting r w w = r"
  by (simp add: still_waiting_def split: option.split)

lemma still_waiting_unpark [simp]: "still_waiting (Some t) w (Task_unpark t w) = None"
  by (simp add: still_waiting_def Task_unpark_def)

inductive oneshot_run :: "('a \<Rightarrow> 'a) \<Rightarrow> 'a oneshot \<Rightarrow> 'z task_world_scheme \<Rightarrow> nat option \<Rightarrow> bool"
  for moved where
  new: "oneshot_run moved oneshot_new w None"
| send: "oneshot_run moved c w r \<Longrightarrow> oneshot_send v c w = (x, c', w')
    \<Longrightarrow> oneshot_run moved c' w' (still_waiting r w w')"
| cancel: "oneshot_run moved c w r \<Longrightarrow> oneshot_cancel c w = (x, c', w')
    \<Longrightarrow> oneshot_run moved c' w' (still_waiting r w w')"
| close: "oneshot_run moved c w r \<Longrightarrow> oneshot_closeSender c w = (c', w')
    \<Longrightarrow> oneshot_run moved c' w' (still_waiting r w w')"
| poll: "oneshot_run moved c w r \<Longrightarrow> tw_current w = Some t \<Longrightarrow> oneshot_poll moved c w = Some (x, c', w')
    \<Longrightarrow> oneshot_run moved c' w' (if x = Ret not_ready then Some t else None)"
| other: "oneshot_run moved c w r \<Longrightarrow> tw_unparked w' = tw_unparked w @ l
    \<Longrightarrow> oneshot_run moved c w' (still_waiting r w w')"

lemma still_waitingD: "still_waiting r w w' = Some t \<Longrightarrow> r = Some t"
  by (auto simp: still_waiting_def split: option.splits if_splits)

lemma oneshot_notify_waiting:
  assumes "\<And>t. r = Some t \<Longrightarrow> os_rx_task c = Some t"
  shows "still_waiting r w (snd (oneshot_notify c w)) = None"
  using assms by (cases r) (auto simp: oneshot_notify_def still_waiting_def Task_unpark_def)

lemma oneshot_run_inv:
  assumes "oneshot_run moved c w r" "r = Some t"
  shows "os_rx_task c = Some t \<and> os_s c = NotReady"
  using assms
proof (induction arbitrary: t rule: oneshot_run.induct)
  case (send c w r v x c' w')
  then show ?case
    using still_waitingD [OF send.prems] oneshot_notify_waiting [of r "c\<lparr>os_v := Some v, os_s := Ready\<rparr>" w]
    by (auto simp: oneshot_send_def split: if_splits prod.splits)
next
  case (cancel c w r x c' w')
  then show ?case
    using still_waitingD [OF cancel.prems] oneshot_notify_waiting [of r "c\<lparr>os_s := Ready\<rparr>" w]
    by (auto simp: oneshot_cancel_def split: if_splits prod.splits)
next
  case (close c w r c' w')
  then show ?case
    using still_waitingD [OF close.prems] oneshot_notify_waiting [of r "c\<lparr>os_s := Closed\<rparr>" w]
    by (auto simp: oneshot_closeSender_def split: if_splits prod.splits)
next
  case (poll c w r t' x c' w')
  then show ?case
    by (cases "os_s c") (auto simp: oneshot_poll_def CurrentTask_park_def split: if_splits option.splits)
next
  case (other c w r w' l)
  then show ?case
    using still_waitingD by blast
qed simp

text \<open>
  C20 --- a receiver waiting on a oneshot channel is never left behind: while its last poll was
  pending and it was not unparked, the channel has no result, and the next \<open>send\<close>,
  \<open>cancel\<close> or close of the sender unparks exactly that task.
\<close>

theorem oneshot_waiter_is_woken:
  assumes "oneshot_run moved c w (Some t)"
  shows "os_s c = NotReady \<and>
    tw_unparked (snd (snd (oneshot_send v c w))) = tw_unparked w @ [t] \<and>
    tw_unparked (snd (snd (oneshot_cancel c w))) = tw_unparked w @ [t] \<and>
    tw_unparked (snd (oneshot_closeSender c w)) = tw_unparked w @ [t]"
  using oneshot_run_inv [OF assms refl]
  by (simp add: oneshot_send_def oneshot_cancel_def oneshot_closeSender_def oneshot_notify_def
      Task_unpark_def)

lemma oneshot_run_parked:
  "oneshot_run moved \<lparr>os_s = NotReady, os_v = None, os_rx_task = Some 4\<rparr>
     \<lparr>tw_current = Some 4, tw_unparked = [], tw_next_id = 5\<rparr> (Some 4)"
proof -
  let ?w = "\<lparr>tw_current = Some 4, tw_unparked = [], tw_next_id = 5\<rparr>"
  let ?c = "\<lparr>os_s = NotReady, os_v = None, os_rx_task = Some 4\<rparr>"
  have "oneshot_poll moved oneshot_new ?w = Some (Ret not_ready, ?c, ?w)"
    by (simp add: oneshot_poll_def oneshot_new_def CurrentTask_park_def)
  then show ?thesis
    using oneshot_run.poll [OF oneshot_run.new [of moved ?w], of 4 "Ret not_ready" ?c ?w] by simp
qed

theorem oneshot_waiter_is_woken_witness:
  "oneshot_run (id :: nat \<Rightarrow> nat) \<lparr>os_s = NotReady, os_v = None, os_rx_task = Some 4\<rparr>
     \<lparr>tw_current = Some 4, tw_unparked = [], tw_next_id = 5\<rparr> (Some 4) \<and>
   tw_unparked (snd (snd (oneshot_send (8 :: nat) \<lparr>os_s = NotReady, os_v = None, os_rx_task = Some 4\<rparr>
     \<lparr>tw_current = Some 4, tw_unparked = [], tw_next_id = 5\<rparr>))) = [4]"
  using oneshot_waiter_is_woken [OF oneshot_run_parked [of "id :: nat \<Rightarrow> nat"], of 8]
    oneshot_run_parked [of "id :: nat \<Rightarrow> nat"]
  by simp

text \<open>
  Runs of the MPSC channel: the values accepted by \<open>send\<close>, the values received, and the
  waiting receiver as above.
\<close>

inductive mpsc_run ::
  "'a mpsc \<Rightarrow> 'z task_world_scheme \<Rightarrow> 'a list \<Rightarrow> 'a list \<Rightarrow> nat option \<Rightarrow> bool" where
  new: "mpsc_run mpsc_new w [] [] None"
| send: "mpsc_run c w sent rcvd r \<Longrightarrow> mpsc_send v c w = (ok, c', w')
    \<Longrightarrow> mpsc_run c' w' (if ok then sent @ [v] else sent) rcvd (still_waiting r w w')"
| add: "mpsc_run c w sent rcvd r \<Longrightarrow> mpsc_run (mpsc_addSender c) w sent rcvd r"
| close: "mpsc_run c w sent rcvd r \<Longrightarrow> mpsc_closeSender c w = (c', w')
    \<Longrightarrow> mpsc_run c' w' sent rcvd (still_waiting r w w')"
| close_recv: "mpsc_run c w sent rcvd r \<Longrightarrow> mpsc_run (mpsc_closeReceiver c) w sent rcvd None"
| poll: "mpsc_run c w sent rcvd r \<Longrightarrow> tw_current w = Some t \<Longrightarrow> mpsc_poll c w = Some (x, c', w')
    \<Longrightarrow> mpsc_run c' w' sent (case x of Ret (Value (Some v)) \<Rightarrow> rcvd @ [v] | _ \<Rightarrow> rcvd)
          (if x = Ret not_ready then Some t else None)"
| other: "mpsc_run c w sent rcvd r \<Longrightarrow> tw_unparked w' = tw_unparked w @ l
    \<Longrightarrow> mpsc_run c w' sent rcvd (still_waiting r w w')"

lemma mpsc_unpark_waiting:
  assumes "\<And>t. r = Some t \<Longrightarrow> mp_rx_task c = Some t"
  shows "still_waiting r w (mpsc_unpark c w) = None"
  using assms by (cases r) (auto simp: mpsc_unpark_def still_waiting_def Task_unpark_def)

lemma mpsc_run_inv:
  assumes "mpsc_run c w sent rcvd r"
  shows "sent = rcvd @ mp_q c \<and>
    (\<forall>t. r = Some t \<longrightarrow> mp_rx_task c = Some t \<and> mp_q c = [] \<and> \<not> mp_sender_closed c \<and> \<not> mp_recv_closed c)"
  using assms
proof (induction rule: mpsc_run.induct)
  case (send c w sent rcvd r v ok c' w')
  then show ?case
    using mpsc_unpark_waiting [of r c w] by (auto simp: mpsc_send_def split: if_splits)
next
  case (close c w sent rcvd r c' w')
  then show ?case
    using mpsc_unpark_waiting [of r "c\<lparr>mp_senders := mp_senders c - 1\<rparr>" w]
    by (auto simp: mpsc_closeSender_def Let_def split: if_splits)
next
  case (poll c w sent rcvd r t x c' w')
  then show ?case
    by (auto simp: mpsc_poll_def CurrentTask_park_def makePollReady_def split: if_splits list.splits)
next
  case (other c w sent rcvd r w' l)
  then show ?case
    by (auto dest: still_waitingD)
qed (auto simp: mpsc_new_def mpsc_addSender_def mpsc_closeReceiver_def)

text \<open>
  C21 --- the MPSC channel is a queue without loss.  In every run, what was received followed
  by what is queued is exactly what \<open>send\<close> accepted, in that order; and a receiver that is
  waiting has an empty queue and a live sender side, so its wait is justified.
\<close>

theorem mpsc_fifo_no_lost_wakeup:
  assumes "mpsc_run c w sent rcvd r"
  shows "sent = rcvd @ mp_q c \<and> (r \<noteq> None \<longrightarrow> mp_q c = [] \<and> \<not> mp_sender_closed c)"
  using mpsc_run_inv [OF assms] by auto

theorem mpsc_fifo_no_lost_wakeup_witness:
  "mpsc_run (mpsc_new\<lparr>mp_q := [2]\<rparr>) \<lparr>tw_current = Some 1, tw_unparked = [], tw_next_id = 1\<rparr>
      [1, 2] [1 :: nat] None \<and>
   [1, 2] = [1 :: nat] @ mp_q (mpsc_new\<lparr>mp_q := [2]\<rparr>)"
proof -
  let ?w = "\<lparr>tw_current = Some 1, tw_unparked = [], tw_next_id = 1\<rparr>"
  have s1: "mpsc_run (mpsc_new\<lparr>mp_q := [1]\<rparr>) ?w [1] [] None"
    using mpsc_run.send [OF mpsc_run.new [of ?w], of 1 True "mpsc_new\<lparr>mp_q := [1]\<rparr>" ?w]
    by (simp add: mpsc_send_def mpsc_new_def mpsc_unpark_def)
  have s2: "mpsc_run (mpsc_new\<lparr>mp_q := [1, 2]\<rparr>) ?w [1, 2] [] None"
    using mpsc_run.send [OF s1, of 2 True "mpsc_new\<lparr>mp_q := [1, 2]\<rparr>" ?w]
    by (simp add: mpsc_send_def mpsc_new_def mpsc_unpark_def)
  have s3: "mpsc_run (mpsc_new\<lparr>mp_q := [2]\<rparr>) ?w [1, 2] [1] None"
    using mpsc_run.poll [OF s2, of 1 "Ret (Value (Some 1))" "mpsc_new\<lparr>mp_q := [2]\<rparr>" ?w]
    by (simp add: mpsc_poll_def mpsc_new_def makePollReady_def)
  then show ?thesis
    using mpsc_fifo_no_lost_wakeup [OF s3] by blast
qed

subsection \<open>Counting senders\<close>

text \<open>
  Runs with sender handles on one channel: constructing, copying and destroying them.  The
  number is that of live handles.
\<close>

inductive sender_run :: "'a mpsc \<Rightarrow> 'z task_world_scheme \<Rightarrow> nat \<Rightarrow> bool" where
  first: "sender_run (mpsc_addSender mpsc_new) w 1"
| copy: "sender_run c w n \<Longrightarrow> n > 0 \<Longrightarrow> n < 2 ^ 64 - 1 \<Longrightarrow> sender_run (mpsc_addSender c) w (n + 1)"
| destroy: "sender_run c w n \<Longrightarrow> n > 0 \<Longrightarrow> mpsc_closeSender c w = (c', w') \<Longrightarrow> sender_run c' w' (n - 1)"

text \<open>
  C22 --- the sender count.  With handles that are only constructed, copied and destroyed
  (fewer than \<open>2^64\<close> of them), \<open>senders_\<close> is the number of live handles, and the channel is
  closed for the receiver exactly when the last one is gone.
\<close>

theorem sender_count_exact:
  assumes "sender_run c w n"
  shows "unat (mp_senders c) = n \<and> (mp_sender_closed c \<longleftrightarrow> n = 0)"
  using assms
proof (induction rule: sender_run.induct)
  case (copy c w n)
  have "unat (mp_senders c + 1) = Suc n"
    using copy by (simp add: unat_word_ariths)
  then show ?case
    using copy by (simp add: mpsc_addSender_def)
next
  case (destroy c w n c' w')
  then have "mp_senders c \<noteq> 0" by (metis unat_0 less_irrefl)
  then have "unat (mp_senders c - 1) = n - 1"
    using destroy unat_minus_one by auto
  moreover have "mp_senders c \<le> 1 \<longleftrightarrow> n \<le> 1"
    using destroy by (simp add: word_le_nat_alt)
  ultimately show ?case
    using destroy by (auto simp: mpsc_closeSender_def Let_def split: if_splits)
qed (simp add: mpsc_addSender_def mpsc_new_def)

theorem sender_count_exact_witness:
  "sender_run (mpsc_addSender (mpsc_addSender mpsc_new) :: nat mpsc)
      \<lparr>tw_current = None, tw_unparked = [], tw_next_id = 0\<rparr> (1 + 1) \<and>
   unat (mp_senders (mpsc_addSender (mpsc_addSender mpsc_new) :: nat mpsc)) = 1 + 1 \<and>
   \<not> mp_sender_closed (mpsc_addSender (mpsc_addSender mpsc_new) :: nat mpsc)"
proof -
  have r: "sender_run (mpsc_addSender (mpsc_addSender mpsc_new) :: nat mpsc)
      \<lparr>tw_current = None, tw_unparked = [], tw_next_id = 0\<rparr> (1 + 1)"
    by (rule sender_run.copy [OF sender_run.first]) simp_all
  then show ?thesis
    using sender_count_exact [OF r] by simp
qed


subsection \<open>A receiver as a stream\<close>

text \<open>
  What a receiver stream needs from its channel: a poll takes the head of the queue, the
  cancellation is answered only for an empty queue, and the sender side only appends what it
  accepts.
\<close>

locale fifo_source =
  fixes recv_poll :: "('r, 'w, 'a) poller"
    and queued :: "'w \<Rightarrow> 'a list"
    and accepted :: "'w \<Rightarrow> 'a list"
    and env :: "'w \<Rightarrow> 'w \<Rightarrow> bool"
  assumes poll_item: "recv_poll s w = Some (Ret (Value (Some v)), s', w')
      \<Longrightarrow> queued w = v # queued w' \<and> accepted w' = accepted w"
    and poll_pending: "recv_poll s w = Some (Ret not_ready, s', w')
      \<Longrightarrow> queued w' = queued w \<and> accepted w' = accepted w"
    and poll_cancelled: "recv_poll s w = Some (Ret (Exception e), s', w') \<Longrightarrow> is_cancelled e
      \<Longrightarrow> queued w = [] \<and> accepted w' = accepted w"
    and env_appends: "env w w' \<Longrightarrow> \<exists>l. queued w' = queued w @ l \<and> accepted w' = accepted w @ l"
begin

lemma stream_pending:
  "ReceiverStream_poll recv_poll s w = Some (Ret not_ready, s', w')
   \<Longrightarrow> recv_poll s w = Some (Ret not_ready, s', w')"
  by (cases "recv_poll s w" rule: member_call_cases)
    (auto simp: ReceiverStream_poll_def makePollReady_def split: Try.splits option.splits if_splits)

lemma stream_item:
  "ReceiverStream_poll recv_poll s w = Some (Ret (Value (Some (Some v))), s', w')
   \<Longrightarrow> recv_poll s w = Some (Ret (Value (Some v)), s', w')"
  by (cases "recv_poll s w" rule: member_call_cases)
    (auto simp: ReceiverStream_poll_def makePollReady_def split: Try.splits option.splits if_splits)

lemma stream_eof:
  "ReceiverStream_poll recv_poll s w = Some (Ret (Value (Some None)), s', w')
   \<Longrightarrow> \<exists>e. is_cancelled e \<and> recv_poll s w = Some (Ret (Exception e), s', w')"
  by (cases "recv_poll s w" rule: member_call_cases)
    (auto simp: ReceiverStream_poll_def makePollReady_def split: Try.splits option.splits if_splits)

lemma resolves_queue:
  assumes "resolves (ReceiverStream_poll recv_poll) env s w r s' w'" "r = Ret (Value x)"
  shows "\<exists>l. accepted w' = accepted w @ l \<and>
    queued w @ l = (case x of None \<Rightarrow> [] | Some v \<Rightarrow> v # queued w')"
  using assms
proof (induction rule: resolves.induct)
  case (stop s w y s' w' r)
  then have y: "y = Ret (Value (Some x))"
    by (cases y rule: final.cases) simp_all
  show ?case
  proof (cases x)
    case None
    then show ?thesis
      using stream_eof [of s w s' w'] poll_cancelled [of s w _ s' w'] stop.hyps(1) y by auto
  next
    case (Some v)
    then show ?thesis
      using poll_item [OF stream_item [of s w v s' w']] stop.hyps(1) y by auto
  qed
next
  case (again s w y s1 w1 w2 r s' w')
  have "queued w1 = queued w" "accepted w1 = accepted w"
    using poll_pending [OF stream_pending [of s w s1 w1]] again.hyps(1,2) by simp_all
  moreover obtain l where "queued w2 = queued w1 @ l" "accepted w2 = accepted w1 @ l"
    using env_appends [OF again.hyps(3)] by blast
  moreover obtain l' where "accepted w' = accepted w2 @ l'"
      "queued w2 @ l' = (case x of None \<Rightarrow> [] | Some v \<Rightarrow> v # queued w')"
    using again.IH again.prems by blast
  ultimately show ?case
    by (intro exI [of _ "l @ l'"]) simp
qed

lemma emits_all:
  assumes "emits (ReceiverStream_poll recv_poll) env s w vs t w'" "t = Eof"
  shows "\<exists>l. accepted w' = accepted w @ l \<and> vs = queued w @ l"
  using assms
proof (induction rule: emits.induct)
  case (finish s w y s' w' t)
  then have "y = Ret (Value None)"
    by (cases y rule: ending.cases) simp_all
  then show ?case
    using resolves_queue [OF finish.hyps(1)] by auto
next
  case (item s w v s1 w1 vs t w')
  obtain l where "accepted w1 = accepted w @ l" "queued w @ l = v # queued w1"
    using resolves_queue [OF item.hyps(1) refl] by auto
  moreover obtain l' where "accepted w' = accepted w1 @ l'" "vs = queued w1 @ l'"
    using item.IH item.prems by blast
  ultimately show ?case
    by (intro exI [of _ "l @ l'"]) (simp flip: append_assoc)
qed

end

text \<open>
  The MPSC channel in the world, with the list of the values its senders got accepted, and
  the steps of the sender side between two polls.
\<close>

record 'a chan_world = task_world +
  cw_chan :: "'a mpsc"
  cw_sent :: "'a list"

text \<open>\<open>BasicReceiver::poll\<close> on the shared channel.\<close>

definition BasicReceiver_poll :: "(unit, 'a chan_world, 'a) poller" where
  "BasicReceiver_poll u w =
     (case mpsc_poll (cw_chan w) w of
        Some (r, c', w') \<Rightarrow> Some (r, u, w'\<lparr>cw_chan := c'\<rparr>)
      | None \<Rightarrow> None)"

inductive senders :: "'a chan_world \<Rightarrow> 'a chan_world \<Rightarrow> bool" where
  idle: "senders w w"
| send: "senders w w1 \<Longrightarrow> mpsc_send v (cw_chan w1) w1 = (ok, c', w2)
    \<Longrightarrow> senders w (w2\<lparr>cw_chan := c', cw_sent := (if ok then cw_sent w1 @ [v] else cw_sent w1)\<rparr>)"
| add: "senders w w1 \<Longrightarrow> senders w (w1\<lparr>cw_chan := mpsc_addSender (cw_chan w1)\<rparr>)"
| close: "senders w w1 \<Longrightarrow> mpsc_closeSender (cw_chan w1) w1 = (c', w2)
    \<Longrightarrow> senders w (w2\<lparr>cw_chan := c'\<rparr>)"
| schedule: "senders w w1 \<Longrightarrow> senders w (w1\<lparr>tw_current := t\<rparr>)"

lemma mpsc_unpark_chan [simp]:
  "cw_chan (mpsc_unpark c w) = cw_chan w" "cw_sent (mpsc_unpark c w) = cw_sent w"
  by (simp_all add: mpsc_unpark_def Task_unpark_def split: option.split)

lemma senders_append:
  "senders w w' \<Longrightarrow> \<exists>l. mp_q (cw_chan w') = mp_q (cw_chan w) @ l \<and> cw_sent w' = cw_sent w @ l"
proof (induction rule: senders.induct)
  case (send w w1 v ok c' w2)
  then obtain l where "mp_q (cw_chan w1) = mp_q (cw_chan w) @ l" "cw_sent w1 = cw_sent w @ l" by blast
  then show ?case
    using send.hyps by (intro exI [of _ "if ok then l @ [v] else l"]) (auto simp: mpsc_send_def split: if_splits)
qed (auto simp: mpsc_addSender_def mpsc_closeSender_def Let_def split: if_splits)

interpretation mpsc_fifo: fifo_source BasicReceiver_poll "\<lambda>w. mp_q (cw_chan w)" cw_sent senders
proof unfold_locales
  show "\<exists>l. mp_q (cw_chan w') = mp_q (cw_chan w) @ l \<and> cw_sent w' = cw_sent w @ l" if "senders w w'" for w w'
    using senders_append [OF that] .
qed (auto simp: BasicReceiver_poll_def mpsc_poll_def makePollReady_def CurrentTask_park_def is_cancelled_def
    split: if_splits list.splits option.splits)

lemma receiver_drains:
  "mp_sender_closed (cw_chan w) \<Longrightarrow> \<not> mp_recv_closed (cw_chan w) \<Longrightarrow> mp_q (cw_chan w) = q
   \<Longrightarrow> \<exists>w'. emits (ReceiverStream_poll BasicReceiver_poll) env () w q Eof w'"
proof (induction q arbitrary: w)
  case Nil
  then show ?case
    by (intro exI emits.finish [where y = "Ret (Value None)"]
        resolves.stop [where x = "Ret (Value (Some None))"])
      (simp_all add: ReceiverStream_poll_def BasicReceiver_poll_def mpsc_poll_def makePollReady_def)
next
  case (Cons v q)
  let ?w = "w\<lparr>cw_chan := (cw_chan w)\<lparr>mp_q := q\<rparr>\<rparr>"
  have "resolves (ReceiverStream_poll BasicReceiver_poll) env () w (Ret (Value (Some v))) () ?w"
    by (rule resolves.stop [where x = "Ret (Value (Some (Some v)))"])
      (simp_all add: Cons.prems ReceiverStream_poll_def BasicReceiver_poll_def mpsc_poll_def makePollReady_def)
  moreover obtain w' where "emits (ReceiverStream_poll BasicReceiver_poll) env () ?w q Eof w'"
    using Cons.IH [of ?w] Cons.prems by auto
  ultimately show ?case
    by (intro exI) (rule emits.item)
qed

text \<open>
  C24 --- a receiver stream delivers exactly what was sent.  Whatever the senders do between its
  polls, a stream that reaches its end has delivered what was queued at the start followed
  by everything accepted since, in order; and once the sender side is closed the
  stream does drain the queue and end.
\<close>

theorem receiver_stream_exact:
  "(\<forall>vs w'. emits (ReceiverStream_poll BasicReceiver_poll) senders () w vs Eof w'
      \<longrightarrow> (\<exists>l. cw_sent w' = cw_sent w @ l \<and> vs = mp_q (cw_chan w) @ l)) \<and>
   (mp_sender_closed (cw_chan w) \<longrightarrow> \<not> mp_recv_closed (cw_chan w)
      \<longrightarrow> (\<exists>w'. emits (ReceiverStream_poll BasicReceiver_poll) senders () w (mp_q (cw_chan w)) Eof w'))"
  using mpsc_fifo.emits_all receiver_drains by blast

theorem receiver_stream_exact_witness:
  "\<exists>w'. emits (ReceiverStream_poll BasicReceiver_poll) senders ()
     \<lparr>tw_current = None, tw_unparked = [], tw_next_id = 0,
       cw_chan = mpsc_new\<lparr>mp_q := [3, 4 :: nat], mp_sender_closed := True\<rparr>, cw_sent = [3, 4]\<rparr>
     [3, 4] Eof w'"
  using receiver_stream_exact [of "\<lparr>tw_current = None, tw_unparked = [], tw_next_id = 0,
       cw_chan = mpsc_new\<lparr>mp_q := [3, 4 :: nat], mp_sender_closed := True\<rparr>, cw_sent = [3, 4]\<rparr>"]
  by (simp add: mpsc_new_def)

subsection \<open>Promises\<close>



end
