(* ===== verification/Buffered.thy ===== *)
theory Buffered
  imports Channels
begin

text \<open>
  The bounded channel of \<open>channel/BufferedChannel.h\<close>.  Waiters are heap objects linked into
  the channel's intrusive lists, so the channel state carries a store for each kind of waiter;
  a list holds the addresses of the linked ones.  Every operation holds the channel's mutex
  and is one step.

  The lemmas: the channel implements a FIFO with a list of waiting receivers (a forward
  simulation, operation by operation), and what goes wrong with a sender that had to wait.
\<close>

subsection \<open>State\<close>

record 'a read_waiter =
  rw_ptr :: bool
  rw_v :: "(nat, 'a) Either"

record 'a write_waiter =
  ww_ptr :: bool
  ww_v :: "(nat \<times> 'a) option"

record 'a buffered =
  bc_max :: nat
  bc_q :: "'a list"
  bc_writers :: "nat list"
  bc_readers :: "nat list"
  bc_wobj :: "nat \<Rightarrow> 'a write_waiter option"
  bc_robj :: "nat \<Rightarrow> 'a read_waiter option"
  bc_next :: nat

type_synonym ('a, 'z, 'r) bc_call = "'r outcome \<times> 'a buffered \<times> 'z task_world_scheme"

definition BufferedChannel_new :: "nat \<Rightarrow> 'a buffered" where
  "BufferedChannel_new n = \<lparr>bc_max = n, bc_q = [], bc_writers = [], bc_readers = [],
     bc_wobj = (\<lambda>_. None), bc_robj = (\<lambda>_. None), bc_next = 0\<rparr>"

definition bc_size :: "'a buffered \<Rightarrow> nat" where
  "bc_size c = length (bc_q c)"

definition addWriter :: "nat \<Rightarrow> 'a buffered \<Rightarrow> 'a buffered" where
  "addWriter i c = c\<lparr>bc_writers := bc_writers c @ [i]\<rparr>"

definition addReader :: "nat \<Rightarrow> 'a buffered \<Rightarrow> 'a buffered" where
  "addReader i c = c\<lparr>bc_readers := bc_readers c @ [i]\<rparr>"

definition closeWriter :: "nat \<Rightarrow> 'a buffered \<Rightarrow> 'a buffered" where
  "closeWriter i c = c\<lparr>bc_writers := remove1 i (bc_writers c)\<rparr>"

definition closeReader :: "nat \<Rightarrow> 'a buffered \<Rightarrow> 'a buffered" where
  "closeReader i c = c\<lparr>bc_readers := remove1 i (bc_readers c)\<rparr>"

subsection \<open>Waiters\<close>

text \<open>The two constructors of each waiter; they return the address of the new object.\<close>

definition ReadWaiter_wait :: "'a buffered \<Rightarrow> 'z task_world_scheme \<Rightarrow> ('a, 'z, nat) bc_call" where
  "ReadWaiter_wait c w =
     (let i = bc_next c; c1 = addReader i (c\<lparr>bc_next := i + 1\<rparr>) in
      case CurrentTask_park w of
        Ret t \<Rightarrow> (Ret i, c1\<lparr>bc_robj := (bc_robj c1)(i \<mapsto> \<lparr>rw_ptr = True, rw_v = assignLeft Uninit t\<rparr>)\<rparr>, w)
      | Throw e \<Rightarrow> (Throw e, c1, w)
      | Abort \<Rightarrow> (Abort, c1, w))"

definition ReadWaiter_ready :: "'a \<Rightarrow> 'a buffered \<Rightarrow> nat \<times> 'a buffered" where
  "ReadWaiter_ready v c =
     (let i = bc_next c in
      (i, c\<lparr>bc_next := i + 1, bc_robj := (bc_robj c)(i \<mapsto> \<lparr>rw_ptr = True, rw_v = Right v\<rparr>)\<rparr>))"

definition ReadWaiter_setValue ::
  "nat \<Rightarrow> 'a \<Rightarrow> 'a buffered \<Rightarrow> 'z task_world_scheme \<Rightarrow> ('a, 'z, unit) bc_call" where
  "ReadWaiter_setValue i v c w =
     (case bc_robj c i of
        None \<Rightarrow> (Abort, c, w)
      | Some r \<Rightarrow>
          if \<not> rw_ptr r then (Abort, c, w)
          else (case either_left (rw_v r) of
                  Ret t \<Rightarrow> (Ret (), c\<lparr>bc_robj := (bc_robj c)(i \<mapsto> r\<lparr>rw_v := assignRight (rw_v r) v\<rparr>)\<rparr>,
                            Task_unpark t w)
                | Throw e \<Rightarrow> (Throw e, c, w)
                | Abort \<Rightarrow> (Abort, c, w)))"

definition ReadWaiter_value ::
  "('a \<Rightarrow> 'a) \<Rightarrow> nat \<Rightarrow> 'a buffered \<Rightarrow> 'z task_world_scheme \<Rightarrow> ('a, 'z, 'a option) bc_call" where
  "ReadWaiter_value moved i c w =
     (case bc_robj c i of
        None \<Rightarrow> (Abort, c, w)
      | Some r \<Rightarrow>
          if \<not> rw_ptr r then (Abort, c, w)
          else (case rw_v r of
                  Right v \<Rightarrow> (Ret (Some v), c\<lparr>bc_robj := (bc_robj c)(i \<mapsto> r\<lparr>rw_v := Right (moved v)\<rparr>)\<rparr>, w)
                | _ \<Rightarrow> (Ret None, c, w)))"

text \<open>The destructor detaches the object and frees it.\<close>

definition ReadWaiter_destroy :: "nat \<Rightarrow> 'a buffered \<Rightarrow> unit outcome \<times> 'a buffered" where
  "ReadWaiter_destroy i c =
     (case bc_robj c i of
        None \<Rightarrow> (Abort, c)
      | Some r \<Rightarrow>
          if \<not> rw_ptr r then (Abort, c)
          else let c1 = (if i \<in> set (bc_readers c) then closeReader i c else c) in
               if i \<in> set (bc_readers c1) then (Abort, c1)
               else (Ret (), c1\<lparr>bc_robj := (bc_robj c1)(i := None)\<rparr>))"

definition WriteWaiter_wait ::
  "'a \<Rightarrow> 'a buffered \<Rightarrow> 'z task_world_scheme \<Rightarrow> ('a, 'z, nat) bc_call" where
  "WriteWaiter_wait v c w =
     (let i = bc_next c; c1 = addWriter i (c\<lparr>bc_next := i + 1\<rparr>) in
      case CurrentTask_park w of
        Ret t \<Rightarrow> (Ret i, c1\<lparr>bc_wobj := (bc_wobj c1)(i \<mapsto> \<lparr>ww_ptr = True, ww_v = Some (t, v)\<rparr>)\<rparr>, w)
      | Throw e \<Rightarrow> (Throw e, c1, w)
      | Abort \<Rightarrow> (Abort, c1, w))"

definition WriteWaiter_ready :: "'a buffered \<Rightarrow> nat \<times> 'a buffered" where
  "WriteWaiter_ready c =
     (let i = bc_next c in
      (i, c\<lparr>bc_next := i + 1, bc_wobj := (bc_wobj c)(i \<mapsto> \<lparr>ww_ptr = True, ww_v = None\<rparr>)\<rparr>))"

definition WriteWaiter_moveValue ::
  "nat \<Rightarrow> 'a buffered \<Rightarrow> 'z task_world_scheme \<Rightarrow> ('a, 'z, 'a) bc_call" where
  "WriteWaiter_moveValue i c w =
     (case bc_wobj c i of
        None \<Rightarrow> (Abort, c, w)
      | Some o1 \<Rightarrow>
          (case ww_v o1 of
             None \<Rightarrow> (Abort, c, w)
           | Some (t, v) \<Rightarrow>
               (Ret v, c\<lparr>bc_wobj := (bc_wobj c)(i \<mapsto> o1\<lparr>ww_v := None, ww_ptr := False\<rparr>)\<rparr>, Task_unpark t w)))"

definition WriteWaiter_isReady :: "nat \<Rightarrow> 'a buffered \<Rightarrow> bool outcome" where
  "WriteWaiter_isReady i c =
     (case bc_wobj c i of
        None \<Rightarrow> Abort
      | Some o1 \<Rightarrow> if \<not> ww_ptr o1 then Abort else Ret (ww_v o1 = None))"

definition WriteWaiter_destroy :: "nat \<Rightarrow> 'a buffered \<Rightarrow> unit outcome \<times> 'a buffered" where
  "WriteWaiter_destroy i c =
     (case bc_wobj c i of
        None \<Rightarrow> (Abort, c)
      | Some o1 \<Rightarrow>
          if \<not> ww_ptr o1 then (Abort, c)
          else let c1 = (if i \<in> set (bc_writers c) then closeWriter i c else c) in
               if i \<in> set (bc_writers c1) then (Abort, c1)
               else (Ret (), c1\<lparr>bc_wobj := (bc_wobj c1)(i := None)\<rparr>))"

subsection \<open>Notification loops\<close>

lemma setValue_q: "ReadWaiter_setValue i v c w = (r, c', w') \<Longrightarrow> bc_q c' = bc_q c"
  by (auto simp: ReadWaiter_setValue_def split: option.splits if_splits outcome.splits)

lemma moveValue_writers:
  "WriteWaiter_moveValue i c w = (r, c', w') \<Longrightarrow> bc_writers c' = bc_writers c"
  by (auto simp: WriteWaiter_moveValue_def split: option.splits)

function notifyReader :: "'a buffered \<Rightarrow> 'z task_world_scheme \<Rightarrow> ('a, 'z, unit) bc_call" where
  "notifyReader c w =
     (if bc_readers c \<noteq> [] \<and> 0 < length (bc_q c)
      then (case ReadWaiter_setValue (hd (bc_readers c)) (hd (bc_q c)) c w of
              (Ret _, c', w') \<Rightarrow> notifyReader (c'\<lparr>bc_q := tl (bc_q c'), bc_readers := tl (bc_readers c')\<rparr>) w'
            | (Throw e, c', w') \<Rightarrow> (Throw e, c', w')
            | (Abort, c', w') \<Rightarrow> (Abort, c', w'))
      else (Ret (), c, w))"
  by pat_completeness auto

termination notifyReader
  by (relation "measure (\<lambda>(c, _). length (bc_q c))") (auto dest!: setValue_q setValue_q [OF sym])

function notifyWriter :: "'a buffered \<Rightarrow> 'z task_world_scheme \<Rightarrow> ('a, 'z, unit) bc_call" where
  "notifyWriter c w =
     (if bc_writers c \<noteq> [] \<and> length (bc_q c) < bc_max c
      then (case WriteWaiter_moveValue (hd (bc_writers c)) c w of
              (Ret v, c', w') \<Rightarrow>
                notifyWriter (c'\<lparr>bc_q := bc_q c' @ [v], bc_writers := tl (bc_writers c')\<rparr>) w'
            | (Throw e, c', w') \<Rightarrow> (Throw e, c', w')
            | (Abort, c', w') \<Rightarrow> (Abort, c', w'))
      else (Ret (), c, w))"
  by pat_completeness auto

termination notifyWriter
  by (relation "measure (\<lambda>(c, _). length (bc_writers c))")
    (auto dest!: moveValue_writers moveValue_writers [OF sym])

declare notifyReader.simps [simp del] notifyWriter.simps [simp del]

subsection \<open>Operations\<close>

definition doSend :: "'a \<Rightarrow> 'a buffered \<Rightarrow> 'z task_world_scheme \<Rightarrow> ('a, 'z, nat) bc_call" where
  "doSend v c w =
     (if length (bc_q c) < bc_max c
      then (case notifyReader (c\<lparr>bc_q := bc_q c @ [v]\<rparr>) w of
              (Ret _, c1, w1) \<Rightarrow> (let (i, c2) = WriteWaiter_ready c1 in (Ret i, c2, w1))
            | (Throw e, c1, w1) \<Rightarrow> (Throw e, c1, w1)
            | (Abort, c1, w1) \<Rightarrow> (Abort, c1, w1))
      else WriteWaiter_wait v c w)"

definition trySend :: "'a \<Rightarrow> 'a buffered \<Rightarrow> 'z task_world_scheme \<Rightarrow> ('a, 'z, bool) bc_call" where
  "trySend v c w =
     (if length (bc_q c) < bc_max c
      then (case notifyReader (c\<lparr>bc_q := bc_q c @ [v]\<rparr>) w of
              (Ret _, c1, w1) \<Rightarrow> (Ret True, c1, w1)
            | (Throw e, c1, w1) \<Rightarrow> (Throw e, c1, w1)
            | (Abort, c1, w1) \<Rightarrow> (Abort, c1, w1))
      else (Ret False, c, w))"

definition doRecv :: "'a buffered \<Rightarrow> 'z task_world_scheme \<Rightarrow> ('a, 'z, nat) bc_call" where
  "doRecv c w =
     (if bc_q c \<noteq> []
      then (let (i, c1) = ReadWaiter_ready (hd (bc_q c)) c in
            case notifyWriter (c1\<lparr>bc_q := tl (bc_q c1)\<rparr>) w of
              (Ret _, c2, w2) \<Rightarrow> (Ret i, c2, w2)
            | (Throw e, c2, w2) \<Rightarrow> (Throw e, c2, w2)
            | (Abort, c2, w2) \<Rightarrow> (Abort, c2, w2))
      else ReadWaiter_wait c w)"

definition tryRecv :: "'a buffered \<Rightarrow> 'z task_world_scheme \<Rightarrow> ('a, 'z, 'a option) bc_call" where
  "tryRecv c w =
     (if bc_q c \<noteq> []
      then (case notifyWriter (c\<lparr>bc_q := tl (bc_q c)\<rparr>) w of
              (Ret _, c1, w1) \<Rightarrow> (Ret (Some (hd (bc_q c))), c1, w1)
            | (Throw e, c1, w1) \<Rightarrow> (Throw e, c1, w1)
            | (Abort, c1, w1) \<Rightarrow> (Abort, c1, w1))
      else (Ret None, c, w))"

text \<open>The futures hold a waiter: \<open>RecvFuture\<close> makes it at its first poll, \<open>SendFuture\<close> at once.\<close>

definition RecvFuture_poll ::
  "('a \<Rightarrow> 'a) \<Rightarrow> nat option \<Rightarrow> 'a buffered \<Rightarrow> 'z task_world_scheme \<Rightarrow> nat option \<times> ('a, 'z, 'a poll) bc_call" where
  "RecvFuture_poll moved f c w =
     (case (case f of Some i \<Rightarrow> (Ret i, c, w) | None \<Rightarrow> doRecv c w) of
        (Ret i, c1, w1) \<Rightarrow>
          (Some i,
           case ReadWaiter_value moved i c1 w1 of
             (Ret (Some v), c2, w2) \<Rightarrow> (Ret (makePollReady v), c2, w2)
           | (Ret None, c2, w2) \<Rightarrow> (Ret not_ready, c2, w2)
           | (Throw e, c2, w2) \<Rightarrow> (Throw e, c2, w2)
           | (Abort, c2, w2) \<Rightarrow> (Abort, c2, w2))
      | (Throw e, c1, w1) \<Rightarrow> (f, Throw e, c1, w1)
      | (Abort, c1, w1) \<Rightarrow> (f, Abort, c1, w1))"

definition SendFuture_new :: "'a \<Rightarrow> 'a buffered \<Rightarrow> 'z task_world_scheme \<Rightarrow> ('a, 'z, nat) bc_call" where
  "SendFuture_new v c w = doSend v c w"

definition SendFuture_poll :: "nat \<Rightarrow> 'a buffered \<Rightarrow> unit poll outcome" where
  "SendFuture_poll i c =
     (case WriteWaiter_isReady i c of
        Ret b \<Rightarrow> if b then Ret (makePollReady ()) else Ret not_ready
      | Throw e \<Rightarrow> Throw e
      | Abort \<Rightarrow> Abort)"

subsection \<open>The FIFO it implements\<close>

text \<open>
  The specification: items in order (those beyond the capacity belong to waiting senders), and
  the receivers that wait.  A sent item goes to the first waiting receiver if there is one.
\<close>

record 'a fifo =
  ff_items :: "'a list"
  ff_waiting :: "nat list"

definition ff_send :: "'a \<Rightarrow> 'a fifo \<Rightarrow> nat option \<times> 'a fifo" where
  "ff_send v f =
     (case ff_waiting f of
        [] \<Rightarrow> (None, f\<lparr>ff_items := ff_items f @ [v]\<rparr>)
      | r # rs \<Rightarrow> (Some r, f\<lparr>ff_waiting := rs\<rparr>))"

definition ff_recv :: "nat \<Rightarrow> 'a fifo \<Rightarrow> 'a option \<times> 'a fifo" where
  "ff_recv i f =
     (case ff_items f of
        [] \<Rightarrow> (None, f\<lparr>ff_waiting := ff_waiting f @ [i]\<rparr>)
      | v # vs \<Rightarrow> (Some v, f\<lparr>ff_items := vs\<rparr>))"

definition ff_tryRecv :: "'a fifo \<Rightarrow> 'a option \<times> 'a fifo" where
  "ff_tryRecv f = (case ff_items f of [] \<Rightarrow> (None, f) | v # vs \<Rightarrow> (Some v, f\<lparr>ff_items := vs\<rparr>))"

definition holds_item :: "'a buffered \<Rightarrow> nat \<Rightarrow> 'a \<Rightarrow> bool" where
  "holds_item c i v \<longleftrightarrow> (\<exists>t. bc_wobj c i = Some \<lparr>ww_ptr = True, ww_v = Some (t, v)\<rparr>)"

definition buf_rel :: "'a buffered \<Rightarrow> 'a fifo \<Rightarrow> bool" where
  "buf_rel c f \<longleftrightarrow>
     0 < bc_max c \<and> length (bc_q c) \<le> bc_max c \<and>
     (bc_readers c \<noteq> [] \<longrightarrow> bc_q c = []) \<and>
     (bc_writers c \<noteq> [] \<longrightarrow> length (bc_q c) = bc_max c) \<and>
     distinct (bc_readers c) \<and> distinct (bc_writers c) \<and>
     (\<exists>vs. list_all2 (holds_item c) (bc_writers c) vs \<and> ff_items f = bc_q c @ vs) \<and>
     ff_waiting f = bc_readers c \<and>
     (\<forall>i\<in>set (bc_readers c). \<exists>t. bc_robj c i = Some \<lparr>rw_ptr = True, rw_v = Left t\<rparr>) \<and>
     (\<forall>i r. bc_robj c i = Some r \<longrightarrow> rw_ptr r) \<and>
     (\<forall>i\<ge>bc_next c. bc_robj c i = None \<and> bc_wobj c i = None)"

lemma notifyReader_idle [simp]: "bc_readers c = [] \<or> bc_q c = [] \<Longrightarrow> notifyReader c w = (Ret (), c, w)"
  by (subst notifyReader.simps) auto

lemma notifyReader_one:
  assumes "bc_q c = [v]" "bc_readers c = r # rs" "bc_robj c r = Some \<lparr>rw_ptr = True, rw_v = Left t\<rparr>"
  shows "notifyReader c w = (Ret (), c\<lparr>bc_q := [], bc_readers := rs,
    bc_robj := (bc_robj c)(r \<mapsto> \<lparr>rw_ptr = True, rw_v = Right v\<rparr>)\<rparr>, Task_unpark t w)"
  using assms by (subst notifyReader.simps) (simp add: ReadWaiter_setValue_def assignRight_def)

lemma notifyWriter_idle [simp]:
  "bc_writers c = [] \<or> bc_max c \<le> length (bc_q c) \<Longrightarrow> notifyWriter c w = (Ret (), c, w)"
  by (subst notifyWriter.simps) auto

lemma notifyWriter_one:
  assumes "Suc (length (bc_q c)) = bc_max c" "bc_writers c = i # is"
    "bc_wobj c i = Some \<lparr>ww_ptr = True, ww_v = Some (t, v)\<rparr>"
  shows "notifyWriter c w = (Ret (), c\<lparr>bc_q := bc_q c @ [v], bc_writers := is,
    bc_wobj := (bc_wobj c)(i \<mapsto> \<lparr>ww_ptr = False, ww_v = None\<rparr>)\<rparr>, Task_unpark t w)"
  using assms by (subst notifyWriter.simps) (simp add: WriteWaiter_moveValue_def)

text \<open>What handing an item to the waiting receiver \<open>r\<close> does: its waiter holds it, its task is unparked.\<close>

definition handed ::
  "nat option \<Rightarrow> 'a \<Rightarrow> 'a buffered \<Rightarrow> 'a buffered \<Rightarrow> 'z task_world_scheme \<Rightarrow> 'z task_world_scheme \<Rightarrow> bool" where
  "handed r v c c' w w' \<longleftrightarrow>
     (case r of
        None \<Rightarrow> bc_robj c' = bc_robj c \<and> w' = w
      | Some i \<Rightarrow> \<exists>t. bc_robj c i = Some \<lparr>rw_ptr = True, rw_v = Left t\<rparr> \<and>
          bc_robj c' = (bc_robj c)(i \<mapsto> \<lparr>rw_ptr = True, rw_v = Right v\<rparr>) \<and> w' = Task_unpark t w)"

lemma buf_rel_room: "buf_rel c f \<Longrightarrow> length (bc_q c) < bc_max c \<longleftrightarrow> length (ff_items f) < bc_max c"
  by (auto simp: buf_rel_def)

lemma buf_rel_ready_writer:
  "buf_rel c f \<Longrightarrow> buf_rel (snd (WriteWaiter_ready c)) f"
proof -
  assume R: "buf_rel c f"
  then have "bc_next c \<notin> set (bc_writers c)"
    by (auto simp: buf_rel_def list_all2_conv_all_nth holds_item_def in_set_conv_nth)
  then have "list_all2 (holds_item (snd (WriteWaiter_ready c))) (bc_writers c) vs"
    if "list_all2 (holds_item c) (bc_writers c) vs" for vs
    using that by (elim list.rel_mono_strong) (auto simp: holds_item_def WriteWaiter_ready_def Let_def)
  then show ?thesis
    using R by (auto simp: buf_rel_def WriteWaiter_ready_def Let_def)
qed

lemma buf_rel_ready_reader:
  "buf_rel c f \<Longrightarrow> buf_rel (snd (ReadWaiter_ready v c)) f"
proof -
  assume R: "buf_rel c f"
  then have "bc_next c \<notin> set (bc_readers c)"
    by (auto simp: buf_rel_def)
  moreover have "holds_item (snd (ReadWaiter_ready v c)) = holds_item c"
    by (simp add: holds_item_def ReadWaiter_ready_def Let_def fun_eq_iff)
  ultimately show ?thesis
    using R by (auto simp: buf_rel_def ReadWaiter_ready_def Let_def)
qed

lemma sim_push:
  assumes R: "buf_rel c f" and room: "length (bc_q c) < bc_max c"
  shows "\<exists>c' w'. notifyReader (c\<lparr>bc_q := bc_q c @ [v]\<rparr>) w = (Ret (), c', w') \<and>
    buf_rel c' (snd (ff_send v f)) \<and> handed (fst (ff_send v f)) v c c' w w' \<and> bc_max c' = bc_max c"
proof (cases "bc_readers c")
  case Nil
  then show ?thesis
    using R room by (auto simp: buf_rel_def ff_send_def handed_def holds_item_def)
next
  case (Cons r rs)
  then obtain t where t: "bc_robj c r = Some \<lparr>rw_ptr = True, rw_v = Left t\<rparr>"
    using R by (auto simp: buf_rel_def)
  have q: "bc_q c = []" "bc_writers c = []"
    using R room Cons by (auto simp: buf_rel_def)
  show ?thesis
    using notifyReader_one [of "c\<lparr>bc_q := bc_q c @ [v]\<rparr>" v r rs t w] R Cons t q
    by (auto simp: buf_rel_def ff_send_def handed_def holds_item_def)
qed

lemma sim_pop:
  assumes R: "buf_rel c f" and q: "bc_q c = v # q"
  shows "\<exists>c' w'. notifyWriter (c\<lparr>bc_q := q\<rparr>) w = (Ret (), c', w') \<and>
    buf_rel c' (f\<lparr>ff_items := tl (ff_items f)\<rparr>) \<and> ff_items f \<noteq> [] \<and> hd (ff_items f) = v \<and>
    bc_robj c' = bc_robj c"
proof (cases "bc_writers c")
  case Nil
  then show ?thesis
    using R q by (auto simp: buf_rel_def holds_item_def)
next
  case (Cons i js)
  then obtain u vs where u: "holds_item c i u" "list_all2 (holds_item c) js vs" "ff_items f = bc_q c @ u # vs"
    using R by (auto simp: buf_rel_def list_all2_Cons1)
  obtain t where t: "bc_wobj c i = Some \<lparr>ww_ptr = True, ww_v = Some (t, u)\<rparr>"
    using u(1) by (auto simp: holds_item_def)
  have len: "length (bc_q c) = bc_max c" and d: "i \<notin> set js"
    using R Cons by (auto simp: buf_rel_def)
  let ?c = "c\<lparr>bc_q := q @ [u], bc_writers := js,
    bc_wobj := (bc_wobj c)(i \<mapsto> \<lparr>ww_ptr = False, ww_v = None\<rparr>)\<rparr>"
  have "notifyWriter (c\<lparr>bc_q := q\<rparr>) w = (Ret (), ?c, Task_unpark t w)"
    using notifyWriter_one [of "c\<lparr>bc_q := q\<rparr>" i js t u w] len q Cons t by simp
  moreover have "list_all2 (holds_item ?c) js vs"
    using u(2) d by (elim list.rel_mono_strong) (auto simp: holds_item_def)
  then have "buf_rel ?c (f\<lparr>ff_items := tl (ff_items f)\<rparr>)"
    using R Cons u(3) q len t by (auto simp: buf_rel_def)
  ultimately show ?thesis
    using u(3) q by simp
qed

lemma sim_doSend:
  assumes R: "buf_rel c f" and cur: "tw_current w = Some t"
  shows "\<exists>i c' w'. doSend v c w = (Ret i, c', w') \<and> buf_rel c' (snd (ff_send v f)) \<and>
    handed (fst (ff_send v f)) v c c' w w' \<and>
    WriteWaiter_isReady i c' = Ret (length (ff_items f) < bc_max c)"
proof (cases "length (bc_q c) < bc_max c")
  case True
  then obtain c1 w1 where c1: "notifyReader (c\<lparr>bc_q := bc_q c @ [v]\<rparr>) w = (Ret (), c1, w1)"
      "buf_rel c1 (snd (ff_send v f))" "handed (fst (ff_send v f)) v c c1 w w1"
    using sim_push [OF R] by blast
  show ?thesis
    using c1 True buf_rel_ready_writer [OF c1(2)] buf_rel_room [OF R]
    by (auto simp: doSend_def WriteWaiter_ready_def WriteWaiter_isReady_def handed_def Let_def split: option.splits)
next
  case False
  then have w: "bc_readers c = []"
    using R by (auto simp: buf_rel_def)
  obtain vs where vs: "list_all2 (holds_item c) (bc_writers c) vs" "ff_items f = bc_q c @ vs"
    using R by (auto simp: buf_rel_def)
  let ?c = "c\<lparr>bc_writers := bc_writers c @ [bc_next c], bc_next := bc_next c + 1,
    bc_wobj := (bc_wobj c)(bc_next c \<mapsto> \<lparr>ww_ptr = True, ww_v = Some (t, v)\<rparr>)\<rparr>"
  have fresh: "bc_next c \<notin> set (bc_writers c)"
    using R by (auto simp: buf_rel_def list_all2_conv_all_nth holds_item_def in_set_conv_nth)
  have "list_all2 (holds_item ?c) (bc_writers c) vs"
    using vs(1) fresh by (elim list.rel_mono_strong) (auto simp: holds_item_def)
  then have "list_all2 (holds_item ?c) (bc_writers c @ [bc_next c]) (vs @ [v])"
    by (simp add: list_all2_appendI holds_item_def)
  then have "buf_rel ?c (snd (ff_send v f))"
    using R False w fresh vs(2) by (auto simp: buf_rel_def ff_send_def)
  moreover have "doSend v c w = (Ret (bc_next c), ?c, w)"
    using False cur by (simp add: doSend_def WriteWaiter_wait_def CurrentTask_park_def addWriter_def Let_def)
  moreover have "fst (ff_send v f) = None"
    using R w by (simp add: buf_rel_def ff_send_def)
  ultimately show ?thesis
    using False buf_rel_room [OF R] by (simp add: handed_def WriteWaiter_isReady_def)
qed

lemma sim_trySend:
  assumes R: "buf_rel c f"
  shows "if length (ff_items f) < bc_max c
    then \<exists>c' w'. trySend v c w = (Ret True, c', w') \<and> buf_rel c' (snd (ff_send v f)) \<and>
      handed (fst (ff_send v f)) v c c' w w'
    else trySend v c w = (Ret False, c, w)"
  using sim_push [OF R, of v w] buf_rel_room [OF R] by (auto simp: trySend_def)

lemma sim_doRecv:
  assumes R: "buf_rel c f" and cur: "tw_current w = Some t"
  shows "\<exists>i c' w' c''. doRecv c w = (Ret i, c', w') \<and> buf_rel c' (snd (ff_recv i f)) \<and>
    ReadWaiter_value moved i c' w' = (Ret (fst (ff_recv i f)), c'', w')"
proof (cases "bc_q c")
  case Nil
  have fresh: "bc_next c \<notin> set (bc_readers c)"
    using R by (auto simp: buf_rel_def)
  let ?c = "c\<lparr>bc_readers := bc_readers c @ [bc_next c], bc_next := bc_next c + 1,
    bc_robj := (bc_robj c)(bc_next c \<mapsto> \<lparr>rw_ptr = True, rw_v = Left t\<rparr>)\<rparr>"
  have "doRecv c w = (Ret (bc_next c), ?c, w)"
    using Nil cur
    by (simp add: doRecv_def ReadWaiter_wait_def CurrentTask_park_def addReader_def assignLeft_def Let_def)
  moreover have items: "ff_items f = []" "bc_writers c = []"
    using R Nil by (auto simp: buf_rel_def)
  then have "buf_rel ?c (snd (ff_recv (bc_next c) f))"
    using R Nil fresh by (auto simp: buf_rel_def ff_recv_def)
  ultimately show ?thesis
    using items(1) by (simp add: ReadWaiter_value_def ff_recv_def)
next
  case (Cons v q)
  let ?c = "snd (ReadWaiter_ready v c)"
  have "bc_q ?c = v # q" using Cons by (simp add: ReadWaiter_ready_def Let_def)
  then obtain c1 w1 where c1: "notifyWriter (?c\<lparr>bc_q := q\<rparr>) w = (Ret (), c1, w1)"
      "buf_rel c1 (f\<lparr>ff_items := tl (ff_items f)\<rparr>)" "ff_items f \<noteq> []" "hd (ff_items f) = v"
      "bc_robj c1 = bc_robj ?c"
    using sim_pop [OF buf_rel_ready_reader [OF R]] by blast
  then obtain vs where items: "ff_items f = v # vs" by (cases "ff_items f") auto
  have "doRecv c w = (Ret (bc_next c), c1, w1)"
    using Cons c1(1) by (simp add: doRecv_def ReadWaiter_ready_def Let_def)
  then show ?thesis
    using c1 items by (simp add: ff_recv_def ReadWaiter_value_def ReadWaiter_ready_def Let_def)
qed

lemma sim_tryRecv:
  assumes R: "buf_rel c f"
  shows "\<exists>c' w'. tryRecv c w = (Ret (fst (ff_tryRecv f)), c', w') \<and> buf_rel c' (snd (ff_tryRecv f))"
proof (cases "bc_q c")
  case Nil
  moreover from Nil have "ff_items f = []"
    using R by (auto simp: buf_rel_def)
  ultimately show ?thesis
    using R by (simp add: tryRecv_def ff_tryRecv_def)
next
  case (Cons v q)
  then obtain c1 w1 where "notifyWriter (c\<lparr>bc_q := q\<rparr>) w = (Ret (), c1, w1)"
      "buf_rel c1 (f\<lparr>ff_items := tl (ff_items f)\<rparr>)" "ff_items f \<noteq> []" "hd (ff_items f) = v"
    using sim_pop [OF R Cons] by blast
  then show ?thesis
    using Cons by (cases "ff_items f") (auto simp: tryRecv_def ff_tryRecv_def)
qed

lemma sim_drop_reader:
  assumes R: "buf_rel c f" and o1: "bc_robj c i = Some r"
  shows "\<exists>c'. ReadWaiter_destroy i c = (Ret (), c') \<and>
    buf_rel c' (f\<lparr>ff_waiting := remove1 i (ff_waiting f)\<rparr>)"
proof -
  let ?c = "c\<lparr>bc_readers := remove1 i (bc_readers c), bc_robj := (bc_robj c)(i := None)\<rparr>"
  have "rw_ptr r" "distinct (bc_readers c)" using R o1 by (auto simp: buf_rel_def)
  then have "ReadWaiter_destroy i c = (Ret (), ?c)"
    using o1 by (simp add: ReadWaiter_destroy_def closeReader_def remove1_idem)
  moreover have "holds_item ?c = holds_item c"
    by (simp add: holds_item_def fun_eq_iff)
  then have "buf_rel ?c (f\<lparr>ff_waiting := remove1 i (ff_waiting f)\<rparr>)"
    using R by (cases "bc_readers c") (auto simp: buf_rel_def)
  ultimately show ?thesis by blast
qed

lemma buf_rel_new: "0 < n \<Longrightarrow> buf_rel (BufferedChannel_new n) \<lparr>ff_items = [], ff_waiting = []\<rparr>"
  by (simp add: buf_rel_def BufferedChannel_new_def)



text \<open>
  C27 --- a sender that had to wait cannot be completed safely.  When a receiver takes an item from
  a full channel with a waiting sender, the sender's item is moved into the queue and its task
  is unparked, but \<open>moveValue\<close> has cleared the waiter's channel pointer: both the poll that
  the wake-up causes and the destructor of the waiter then dereference a null pointer.
\<close>

theorem blocked_send_aborts:
  assumes "buf_rel c f" "bc_writers c = i # is"
  shows "\<exists>v t c' w'. tryRecv c w = (Ret (Some v), c', w') \<and> tw_unparked w' = tw_unparked w @ [t] \<and>
    bc_wobj c i \<noteq> None \<and> SendFuture_poll i c' = Abort \<and> fst (WriteWaiter_destroy i c') = Abort"
proof -
  obtain t u where t: "bc_wobj c i = Some \<lparr>ww_ptr = True, ww_v = Some (t, u)\<rparr>"
    using assms by (auto simp: buf_rel_def list_all2_Cons1 holds_item_def)
  obtain v q where q: "bc_q c = v # q" "length (bc_q c) = bc_max c"
    using assms by (cases "bc_q c") (auto simp: buf_rel_def)
  then show ?thesis
    using notifyWriter_one [of "c\<lparr>bc_q := q\<rparr>" i "is" t u w] assms(2) t
    by (simp add: tryRecv_def SendFuture_poll_def WriteWaiter_isReady_def WriteWaiter_destroy_def Task_unpark_def)
qed

theorem blocked_send_aborts_witness:
  "\<exists>c f (w :: task_world) v t c' w'. buf_rel c f \<and> bc_writers c = [1] \<and> bc_q c = [3 :: nat] \<and>
    tryRecv c w = (Ret (Some v), c', w') \<and> tw_unparked w' = tw_unparked w @ [t] \<and> SendFuture_poll 1 c' = Abort"
proof -
  define c where "c = \<lparr>bc_max = 1, bc_q = [3 :: nat], bc_writers = [1], bc_readers = [],
    bc_wobj = (\<lambda>_. None)(0 \<mapsto> \<lparr>ww_ptr = True, ww_v = None\<rparr>, 1 \<mapsto> \<lparr>ww_ptr = True, ww_v = Some (5, 4)\<rparr>),
    bc_robj = (\<lambda>_. None), bc_next = 2\<rparr>"
  have rel: "buf_rel c \<lparr>ff_items = [3, 4], ff_waiting = []\<rparr>"
    by (simp add: buf_rel_def c_def holds_item_def)
  have wr: "bc_writers c = [1]" "bc_q c = [3]" by (simp_all add: c_def)
  show ?thesis
    using rel wr blocked_send_aborts [OF rel wr(1), of "\<lparr>tw_current = None, tw_unparked = [], tw_next_id = 6\<rparr>"]
    by blast
qed

text \<open>With capacity 0 a sender and a receiver wait for each other: the queue is never used.\<close>

lemma zero_capacity_never_delivers:
  assumes "tw_current w = Some t"
  shows "\<exists>i j c1 c2. doSend v (BufferedChannel_new 0) w = (Ret i, c1, w) \<and> doRecv c1 w = (Ret j, c2, w) \<and>
    SendFuture_poll i c2 = Ret not_ready \<and> ReadWaiter_value moved j c2 w = (Ret None, c2, w)"
  using assms
  by (simp add: doSend_def doRecv_def BufferedChannel_new_def WriteWaiter_wait_def ReadWaiter_wait_def
      CurrentTask_park_def addWriter_def addReader_def SendFuture_poll_def WriteWaiter_isReady_def
      ReadWaiter_value_def assignLeft_def Let_def)

end
