(* ===== verification/Bytes.thy ===== *)
theory Bytes
  imports Prelude "HOL-Library.Word"
begin

unbundle bit_operations_syntax

text \<open>
  Bytes and the arithmetic of reading and writing integers byte by byte, shared by the codecs:
  a value is rebuilt from its bytes by shifting and \<open>|=\<close>.
\<close>

type_synonym byte = "8 word"

text \<open>Byte \<open>k\<close> (counted from the least significant one) of a 64-bit value.\<close>

definition byte_of :: "nat \<Rightarrow> 64 word \<Rightarrow> byte" where
  "byte_of k n = ucast (drop_bit (8 * k) n)"

lemma byte_of_mod [byte_simps]: "ucast (drop_bit (8 * k) n mod 256) = byte_of k n"
proof -
  have "drop_bit (8 * k) n mod 256 = take_bit 8 (drop_bit (8 * k) n)"
    by (simp add: take_bit_eq_mod)
  then show ?thesis
    unfolding byte_of_def by simp (rule bit_word_eqI, auto simp: bit_simps)
qed

text \<open>One more byte joined to the bits above it.\<close>

lemma join_byte:
  "push_bit (8 * Suc k) (drop_bit (8 * Suc k) n) OR push_bit (8 * k) (ucast (byte_of k n)) =
     push_bit (8 * k) (drop_bit (8 * k) (n :: 64 word))"
proof (rule bit_word_eqI)
  fix i assume "i < LENGTH(64)"
  then show "bit (push_bit (8 * Suc k) (drop_bit (8 * Suc k) n) OR push_bit (8 * k) (ucast (byte_of k n))) i
    = bit (push_bit (8 * k) (drop_bit (8 * k) n)) i"
    by (cases "8 * Suc k \<le> i") (auto simp: bit_simps byte_of_def)
qed

lemma small_word_bit:
  fixes n :: "64 word"
  assumes "unat n < 2 ^ m" "m \<le> i"
  shows "\<not> bit n i"
proof
  assume b: "bit n i"
  have "unat n < 2 ^ i"
    using assms power_increasing [of m i "2 :: nat"] by linarith
  then have "\<not> bit (unat n) i" by (simp add: bit_iff_odd)
  with b show False by (simp add: bit_unsigned_iff)
qed

lemma top_byte:
  fixes n :: "64 word"
  assumes "unat n < 2 ^ (8 * Suc k)"
  shows "push_bit (8 * k) (ucast (byte_of k n)) = push_bit (8 * k) (drop_bit (8 * k) n)"
proof (rule bit_word_eqI)
  fix i assume "i < LENGTH(64)"
  then show "bit (push_bit (8 * k) (ucast (byte_of k n)) :: 64 word) i = bit (push_bit (8 * k) (drop_bit (8 * k) n)) i"
    using small_word_bit [OF assms, of i] by (cases "8 * Suc k \<le> i") (auto simp: bit_simps byte_of_def)
qed

lemma bytes2:
  fixes n :: "64 word"
  assumes "n < 65536"
  shows "push_bit 8 (ucast (byte_of 1 n)) OR push_bit 0 (ucast (byte_of 0 n)) = n"
proof -
  have "unat n < 2 ^ (8 * Suc 1)" using assms by (simp add: word_less_nat_alt)
  then show ?thesis
    using top_byte [of n 1] join_byte [of 0 n] by simp
qed

lemma bytes8:
  fixes n :: "64 word"
  shows "((((((push_bit 56 (ucast (byte_of 7 n)) OR push_bit 48 (ucast (byte_of 6 n)))
    OR push_bit 40 (ucast (byte_of 5 n))) OR push_bit 32 (ucast (byte_of 4 n)))
    OR push_bit 24 (ucast (byte_of 3 n))) OR push_bit 16 (ucast (byte_of 2 n)))
    OR push_bit 8 (ucast (byte_of 1 n))) OR push_bit 0 (ucast (byte_of 0 n)) = n"
proof -
  have "unat n < 2 ^ (8 * Suc 7)" using unsigned_less [of n] by simp
  then show ?thesis
    using top_byte [of n 7] join_byte [of 6 n] join_byte [of 5 n] join_byte [of 4 n] join_byte [of 3 n]
      join_byte [of 2 n] join_byte [of 1 n] join_byte [of 0 n]
    by simp
qed

end
