(* ===== verification/Ws_Parser.thy ===== *)
theory Ws_Parser
  imports Bytes
begin

unbundle bit_operations_syntax

text \<open>
  The WebSocket frame parser of \<open>src/http/ws_parser.c\<close>: its state, one definition per group of
  states of the \<open>switch\<close>, and the loop of \<open>ws_parser_execute\<close> over the bytes of a buffer.
  The callbacks are functions on the user data that return C's \<open>int\<close>, non-zero to stop.
  The payload is unmasked in place in the buffer; the callback gets it, and nothing reads it
  from the buffer afterwards.

  The lemmas: for callbacks that do not care how a payload is cut, the outcome does not depend
  on how the bytes are cut into buffers; and parsing the bytes of a frame calls the
  callbacks with exactly that frame.
\<close>

subsection \<open>Types\<close>

definition WS_FRAME_TEXT :: byte where "WS_FRAME_TEXT = 0x1"
definition WS_FRAME_BINARY :: byte where "WS_FRAME_BINARY = 0x2"
definition WS_FRAME_CLOSE :: byte where "WS_FRAME_CLOSE = 0x8"
definition WS_FRAME_PING :: byte where "WS_FRAME_PING = 0x9"
definition WS_FRAME_PONG :: byte where "WS_FRAME_PONG = 0xA"

lemmas ws_frame_types = WS_FRAME_TEXT_def WS_FRAME_BINARY_def WS_FRAME_CLOSE_def WS_FRAME_PING_def
  WS_FRAME_PONG_def

definition WS_OK :: int where "WS_OK = 0"
definition WS_RESERVED_BITS_SET :: int where "WS_RESERVED_BITS_SET = -1"
definition WS_INVALID_OPCODE :: int where "WS_INVALID_OPCODE = -2"
definition WS_INVALID_CONTINUATION :: int where "WS_INVALID_CONTINUATION = -3"
definition WS_CONTROL_TOO_LONG :: int where "WS_CONTROL_TOO_LONG = -4"
definition WS_NON_CANONICAL_LENGTH :: int where "WS_NON_CANONICAL_LENGTH = -5"
definition WS_FRAGMENTED_CONTROL :: int where "WS_FRAGMENTED_CONTROL = -6"

lemmas ws_codes = WS_OK_def WS_RESERVED_BITS_SET_def WS_INVALID_OPCODE_def WS_INVALID_CONTINUATION_def
  WS_CONTROL_TOO_LONG_def WS_NON_CANONICAL_LENGTH_def WS_FRAGMENTED_CONTROL_def

definition ws_parser_error :: "int \<Rightarrow> string option" where
  "ws_parser_error rc =
     (if rc = WS_OK then Some ''WS_OK''
      else if rc = WS_RESERVED_BITS_SET then Some ''WS_RESERVED_BITS_SET''
      else if rc = WS_INVALID_OPCODE then Some ''WS_INVALID_OPCODE''
      else if rc = WS_INVALID_CONTINUATION then Some ''WS_INVALID_CONTINUATION''
      else if rc = WS_CONTROL_TOO_LONG then Some ''WS_CONTROL_TOO_LONG''
      else if rc = WS_NON_CANONICAL_LENGTH then Some ''WS_NON_CANONICAL_LENGTH''
      else if rc = WS_FRAGMENTED_CONTROL then Some ''WS_FRAGMENTED_CONTROL''
      else None)"

datatype ws_state =
    S_OPCODE | S_LENGTH | S_LENGTH_16_0 | S_LENGTH_16_1
  | S_LENGTH_64_0 | S_LENGTH_64_1 | S_LENGTH_64_2 | S_LENGTH_64_3
  | S_LENGTH_64_4 | S_LENGTH_64_5 | S_LENGTH_64_6 | S_LENGTH_64_7
  | S_MASK_0 | S_MASK_1 | S_MASK_2 | S_MASK_3 | S_PAYLOAD

record ws_parser =
  wp_bytes_remaining :: "64 word"
  wp_mask :: "byte list"
  wp_fragment :: bool
  wp_fin :: bool
  wp_control :: bool
  wp_mask_flag :: bool
  wp_mask_pos :: "2 word"
  wp_state :: ws_state

record 'u ws_callbacks =
  on_data_begin :: "byte \<Rightarrow> 'u \<Rightarrow> int \<times> 'u"
  on_data_payload :: "byte list \<Rightarrow> 'u \<Rightarrow> int \<times> 'u"
  on_data_end :: "'u \<Rightarrow> int \<times> 'u"
  on_control_begin :: "byte \<Rightarrow> 'u \<Rightarrow> int \<times> 'u"
  on_control_payload :: "byte list \<Rightarrow> 'u \<Rightarrow> int \<times> 'u"
  on_control_end :: "'u \<Rightarrow> int \<times> 'u"

text \<open>\<open>ws_parser_init\<close> leaves the other fields as they are.\<close>

definition ws_parser_init :: "ws_parser \<Rightarrow> ws_parser" where
  "ws_parser_init p = p\<lparr>wp_state := S_OPCODE, wp_fragment := False\<rparr>"

subsection \<open>The states\<close>

text \<open>A case of the \<open>switch\<close> returns from the function or goes on with the rest of the buffer.\<close>

datatype ws_flow = Return int | Continue "byte list"

type_synonym 'u ws_result = "ws_parser \<times> 'u \<times> ws_flow"

definition ws_end_of_payload :: "'u ws_callbacks \<Rightarrow> ws_parser \<Rightarrow> 'u \<Rightarrow> byte list \<Rightarrow> 'u ws_result" where
  "ws_end_of_payload cb p u rest =
     (if wp_control p \<or> wp_fin p
      then (let (rc, u') = (if wp_control p then on_control_end cb u else on_data_end cb u) in
            if rc \<noteq> 0 then (p, u', Return rc) else (p\<lparr>wp_state := S_OPCODE\<rparr>, u', Continue rest))
      else (p\<lparr>wp_state := S_OPCODE\<rparr>, u, Continue rest))"

definition ws_opcode :: "'u ws_callbacks \<Rightarrow> ws_parser \<Rightarrow> 'u \<Rightarrow> byte \<Rightarrow> byte list \<Rightarrow> 'u ws_result" where
  "ws_opcode cb p u cur rest =
     (let opcode = cur AND 0x0f in
      if cur AND 0x70 \<noteq> 0 then (p, u, Return WS_RESERVED_BITS_SET)
      else
        let p1 = p\<lparr>wp_fin := (cur AND 0x80 \<noteq> 0)\<rparr> in
        if opcode = 0
        then (if \<not> wp_fragment p1 then (p1, u, Return WS_INVALID_CONTINUATION)
              else (p1\<lparr>wp_control := False, wp_state := S_LENGTH\<rparr>, u, Continue rest))
        else if opcode AND 0x8 \<noteq> 0
        then (if opcode \<noteq> WS_FRAME_PING \<and> opcode \<noteq> WS_FRAME_PONG \<and> opcode \<noteq> WS_FRAME_CLOSE
              then (p1, u, Return WS_INVALID_OPCODE)
              else if \<not> wp_fin p1 then (p1, u, Return WS_FRAGMENTED_CONTROL)
              else let p2 = p1\<lparr>wp_control := True\<rparr>; (rc, u') = on_control_begin cb opcode u in
                   if rc \<noteq> 0 then (p2, u', Return rc)
                   else (p2\<lparr>wp_state := S_LENGTH\<rparr>, u', Continue rest))
        else (if opcode \<noteq> WS_FRAME_TEXT \<and> opcode \<noteq> WS_FRAME_BINARY
              then (p1, u, Return WS_INVALID_OPCODE)
              else let p2 = p1\<lparr>wp_control := False, wp_fragment := \<not> wp_fin p1\<rparr>;
                       (rc, u') = on_data_begin cb opcode u in
                   if rc \<noteq> 0 then (p2, u', Return rc)
                   else (p2\<lparr>wp_state := S_LENGTH\<rparr>, u', Continue rest)))"

definition after_length :: "ws_parser \<Rightarrow> ws_state" where
  "after_length p = (if wp_mask_flag p then S_MASK_0 else S_PAYLOAD)"

definition ws_length :: "'u ws_callbacks \<Rightarrow> ws_parser \<Rightarrow> 'u \<Rightarrow> byte \<Rightarrow> byte list \<Rightarrow> 'u ws_result" where
  "ws_length cb p u cur rest =
     (let len = cur AND 0x7f;
          p1 = p\<lparr>wp_mask_flag := (cur AND 0x80 \<noteq> 0), wp_mask_pos := 0\<rparr> in
      if wp_control p1 \<and> len > 125 then (p1, u, Return WS_CONTROL_TOO_LONG)
      else
        let p2 = (if wp_control p1 \<or> len < 126
                  then p1\<lparr>wp_bytes_remaining := ucast len, wp_state := after_length p1\<rparr>
                  else if len = 126 then p1\<lparr>wp_state := S_LENGTH_16_0\<rparr>
                  else p1\<lparr>wp_state := S_LENGTH_64_0\<rparr>) in
        if wp_state p2 = S_PAYLOAD \<and> wp_bytes_remaining p2 = 0
        then ws_end_of_payload cb p2 u rest
        else (p2, u, Continue rest))"

text \<open>One byte of an extended length: \<open>bytes_remaining |= (uint64_t)cur_byte << k\<close>.\<close>

definition ws_length_byte :: "ws_parser \<Rightarrow> byte \<Rightarrow> nat \<Rightarrow> ws_state \<Rightarrow> ws_parser" where
  "ws_length_byte p cur k s =
     p\<lparr>wp_bytes_remaining := wp_bytes_remaining p OR push_bit k (ucast cur), wp_state := s\<rparr>"

definition ws_length_first :: "ws_parser \<Rightarrow> byte \<Rightarrow> nat \<Rightarrow> ws_state \<Rightarrow> ws_parser" where
  "ws_length_first p cur k s = p\<lparr>wp_bytes_remaining := push_bit k (ucast cur), wp_state := s\<rparr>"

definition ws_length_last :: "ws_parser \<Rightarrow> 'u \<Rightarrow> byte \<Rightarrow> 64 word \<Rightarrow> byte list \<Rightarrow> 'u ws_result" where
  "ws_length_last p u cur lim rest =
     (let p1 = ws_length_byte p cur 0 (after_length p) in
      if wp_bytes_remaining p1 < lim then (p1, u, Return WS_NON_CANONICAL_LENGTH)
      else (p1, u, Continue rest))"

definition ws_mask_byte :: "ws_parser \<Rightarrow> byte \<Rightarrow> nat \<Rightarrow> ws_state \<Rightarrow> ws_parser" where
  "ws_mask_byte p cur i s = p\<lparr>wp_mask := (wp_mask p)[i := cur], wp_state := s\<rparr>"

definition ws_mask_last :: "'u ws_callbacks \<Rightarrow> ws_parser \<Rightarrow> 'u \<Rightarrow> byte \<Rightarrow> byte list \<Rightarrow> 'u ws_result" where
  "ws_mask_last cb p u cur rest =
     (let p1 = ws_mask_byte p cur 3 S_PAYLOAD in
      if wp_bytes_remaining p1 = 0 then ws_end_of_payload cb p1 u rest else (p1, u, Continue rest))"

text \<open>\<open>buff[i] ^= mask[mask_pos++]\<close>; \<open>mask_pos\<close> is a bit field of width 2.\<close>

fun ws_unmask :: "byte list \<Rightarrow> 2 word \<Rightarrow> byte list \<Rightarrow> byte list \<times> 2 word" where
  "ws_unmask key pos [] = ([], pos)"
| "ws_unmask key pos (b # bs) =
     (let (r, pos') = ws_unmask key (pos + 1) bs in ((b XOR key ! unat pos) # r, pos'))"

definition ws_payload :: "'u ws_callbacks \<Rightarrow> ws_parser \<Rightarrow> 'u \<Rightarrow> byte list \<Rightarrow> 'u ws_result" where
  "ws_payload cb p u buff =
     (let n = min (length buff) (unat (wp_bytes_remaining p));
          (chunk, pos) = (if wp_mask_flag p then ws_unmask (wp_mask p) (wp_mask_pos p) (take n buff)
                          else (take n buff, wp_mask_pos p));
          p1 = p\<lparr>wp_mask_pos := pos\<rparr>;
          (rc, u') = (if wp_control p1 then on_control_payload cb chunk u else on_data_payload cb chunk u) in
      if rc \<noteq> 0 then (p1, u', Return rc)
      else
        let p2 = p1\<lparr>wp_bytes_remaining := wp_bytes_remaining p1 - of_nat n\<rparr> in
        if wp_bytes_remaining p2 = 0 then ws_end_of_payload cb p2 u' (drop n buff)
        else (p2, u', Continue (drop n buff)))"

text \<open>The \<open>switch\<close>; the buffer is not empty.\<close>

definition ws_step :: "'u ws_callbacks \<Rightarrow> ws_parser \<Rightarrow> 'u \<Rightarrow> byte list \<Rightarrow> 'u ws_result" where
  "ws_step cb p u buff =
     (let cur = hd buff; rest = tl buff in
      case wp_state p of
        S_OPCODE \<Rightarrow> ws_opcode cb p u cur rest
      | S_LENGTH \<Rightarrow> ws_length cb p u cur rest
      | S_LENGTH_16_0 \<Rightarrow> (ws_length_first p cur 8 S_LENGTH_16_1, u, Continue rest)
      | S_LENGTH_16_1 \<Rightarrow> ws_length_last p u cur 126 rest
      | S_LENGTH_64_0 \<Rightarrow> (ws_length_first p cur 56 S_LENGTH_64_1, u, Continue rest)
      | S_LENGTH_64_1 \<Rightarrow> (ws_length_byte p cur 48 S_LENGTH_64_2, u, Continue rest)
      | S_LENGTH_64_2 \<Rightarrow> (ws_length_byte p cur 40 S_LENGTH_64_3, u, Continue rest)
      | S_LENGTH_64_3 \<Rightarrow> (ws_length_byte p cur 32 S_LENGTH_64_4, u, Continue rest)
      | S_LENGTH_64_4 \<Rightarrow> (ws_length_byte p cur 24 S_LENGTH_64_5, u, Continue rest)
      | S_LENGTH_64_5 \<Rightarrow> (ws_length_byte p cur 16 S_LENGTH_64_6, u, Continue rest)
      | S_LENGTH_64_6 \<Rightarrow> (ws_length_byte p cur 8 S_LENGTH_64_7, u, Continue rest)
      | S_LENGTH_64_7 \<Rightarrow> ws_length_last p u cur 65536 rest
      | S_MASK_0 \<Rightarrow> (ws_mask_byte p cur 0 S_MASK_1, u, Continue rest)
      | S_MASK_1 \<Rightarrow> (ws_mask_byte p cur 1 S_MASK_2, u, Continue rest)
      | S_MASK_2 \<Rightarrow> (ws_mask_byte p cur 2 S_MASK_3, u, Continue rest)
      | S_MASK_3 \<Rightarrow> ws_mask_last cb p u cur rest
      | S_PAYLOAD \<Rightarrow> ws_payload cb p u buff)"

subsection \<open>The loop\<close>

lemma ws_end_of_payload_flow:
  "ws_end_of_payload cb p u rest = (p', u', Continue rest') \<Longrightarrow> rest' = rest \<and> wp_state p' = S_OPCODE"
  by (auto simp: ws_end_of_payload_def split: if_splits prod.splits)

text \<open>Every round shortens the buffer, except one that leaves an exhausted payload.\<close>

lemma ws_step_progress:
  assumes "ws_step cb p u buff = (p', u', Continue rest)" "buff \<noteq> []"
  shows "2 * length rest + (if wp_state p' = S_PAYLOAD then 1 else 0)
    < 2 * length buff + (if wp_state p = S_PAYLOAD then 1 else 0)"
proof (cases "wp_state p = S_PAYLOAD")
  case True
  then show ?thesis
    using assms
    by (cases "wp_bytes_remaining p = 0")
      (auto simp: ws_step_def ws_payload_def Let_def unat_gt_0 min_def
        dest!: ws_end_of_payload_flow split: if_splits prod.splits)
next
  case False
  have "rest = tl buff"
    using assms(1) False
    by (auto simp: ws_step_def ws_opcode_def ws_length_def ws_length_last_def ws_mask_last_def Let_def
        dest!: ws_end_of_payload_flow split: ws_state.splits if_splits prod.splits)
  then show ?thesis
    using assms(2) by (cases buff) auto
qed

lemma ws_step_return:
  assumes "ws_step cb p u buff = (p', u', Return rc)"
  shows "rc \<noteq> 0"
proof -
  have eop: "ws_end_of_payload cb p u rest = (p', u', Return rc) \<Longrightarrow> rc \<noteq> 0" for p u rest
    by (auto simp: ws_end_of_payload_def split: if_splits prod.splits)
  show ?thesis
    using assms
    by (cases "wp_state p")
      (auto simp: ws_step_def ws_opcode_def ws_length_def ws_length_last_def ws_mask_last_def ws_payload_def
        ws_codes Let_def dest!: eop split: if_splits prod.splits)
qed

function ws_parser_execute :: "'u ws_callbacks \<Rightarrow> ws_parser \<Rightarrow> 'u \<Rightarrow> byte list \<Rightarrow> int \<times> ws_parser \<times> 'u" where
  "ws_parser_execute cb p u buff =
     (if buff = [] then (WS_OK, p, u)
      else (case ws_step cb p u buff of
              (p', u', Return rc) \<Rightarrow> (rc, p', u')
            | (p', u', Continue rest) \<Rightarrow> ws_parser_execute cb p' u' rest))"
  by pat_completeness auto

termination ws_parser_execute
  by (relation "measure (\<lambda>(cb, p, u, buff). 2 * length buff + (if wp_state p = S_PAYLOAD then 1 else 0))")
    (auto dest: ws_step_progress [OF sym])

declare ws_parser_execute.simps [simp del]

subsection \<open>Cutting the input into buffers\<close>

text \<open>Two results of a callback or of the parser: the same code, and the same state unless it is an error.\<close>

definition agree :: "int \<times> 'x \<Rightarrow> int \<times> 'x \<Rightarrow> bool" where
  "agree r s \<longleftrightarrow> fst r = fst s \<and> (fst r = 0 \<longrightarrow> snd r = snd s)"

definition and_then :: "int \<times> 'x \<Rightarrow> ('x \<Rightarrow> int \<times> 'x) \<Rightarrow> int \<times> 'x" where
  "and_then r k = (if fst r \<noteq> 0 then r else k (snd r))"

lemma agree_refl [simp]: "agree r r"
  by (simp add: agree_def)

lemma ws_unmask_append:
  "ws_unmask key pos (xs @ ys) =
     (let (r1, pos1) = ws_unmask key pos xs; (r2, pos2) = ws_unmask key pos1 ys in (r1 @ r2, pos2))"
  by (induction xs arbitrary: pos) (auto simp: Let_def split: prod.splits)

lemma length_ws_unmask [simp]: "length (fst (ws_unmask key pos xs)) = length xs"
  by (induction xs arbitrary: pos) (simp_all add: case_prod_unfold Let_def)

definition ws_chunk :: "ws_parser \<Rightarrow> byte list \<Rightarrow> byte list \<times> 2 word" where
  "ws_chunk p xs = (if wp_mask_flag p then ws_unmask (wp_mask p) (wp_mask_pos p) xs else (xs, wp_mask_pos p))"

definition on_payload :: "'u ws_callbacks \<Rightarrow> ws_parser \<Rightarrow> byte list \<Rightarrow> 'u \<Rightarrow> int \<times> 'u" where
  "on_payload cb p = (if wp_control p then on_control_payload cb else on_data_payload cb)"

lemma ws_chunk_append:
  "ws_chunk p (xs @ ys) = (fst (ws_chunk p xs) @ fst (ws_chunk (p\<lparr>wp_mask_pos := snd (ws_chunk p xs)\<rparr>) ys),
     snd (ws_chunk (p\<lparr>wp_mask_pos := snd (ws_chunk p xs)\<rparr>) ys))"
  by (auto simp: ws_chunk_def ws_unmask_append Let_def split: prod.splits)

lemma ws_chunk_Nil_iff [simp]: "fst (ws_chunk p xs) = [] \<longleftrightarrow> xs = []"
proof -
  have "length (fst (ws_chunk p xs)) = length xs" by (simp add: ws_chunk_def)
  then show ?thesis by (metis length_0_conv)
qed

text \<open>What a round in the payload does with the result \<open>r\<close> of the callback.\<close>

definition ws_payload_done ::
  "'u ws_callbacks \<Rightarrow> ws_parser \<Rightarrow> 2 word \<Rightarrow> 64 word \<Rightarrow> int \<times> 'u \<Rightarrow> byte list \<Rightarrow> 'u ws_result" where
  "ws_payload_done cb p pos rem r rest =
     (if fst r \<noteq> 0 then (p\<lparr>wp_mask_pos := pos\<rparr>, snd r, Return (fst r))
      else let p1 = p\<lparr>wp_mask_pos := pos, wp_bytes_remaining := rem\<rparr> in
        if rem = 0 then ws_end_of_payload cb p1 (snd r) rest else (p1, snd r, Continue rest))"

lemma ws_payload_done_error:
  "fst r \<noteq> 0 \<Longrightarrow> ws_payload_done cb p pos rem r rest = (p\<lparr>wp_mask_pos := pos\<rparr>, snd r, Return (fst r))"
  by (simp add: ws_payload_done_def)

lemma ws_payload_alt:
  "ws_payload cb p u buff =
     (let n = min (length buff) (unat (wp_bytes_remaining p)); (chunk, pos) = ws_chunk p (take n buff) in
      ws_payload_done cb p pos (wp_bytes_remaining p - of_nat n) (on_payload cb p chunk u) (drop n buff))"
  by (auto simp: ws_payload_def ws_chunk_def on_payload_def ws_payload_done_def Let_def split: prod.splits)

lemma ws_execute_Nil [simp]: "ws_parser_execute cb p u [] = (WS_OK, p, u)"
  by (simp add: ws_parser_execute.simps)

definition flow_append :: "'u ws_result \<Rightarrow> byte list \<Rightarrow> 'u ws_result" where
  "flow_append r b = (case r of (p, u, Return rc) \<Rightarrow> (p, u, Return rc) | (p, u, Continue rest) \<Rightarrow> (p, u, Continue (rest @ b)))"

lemma ws_end_of_payload_append:
  "ws_end_of_payload cb p u (rest @ b) = flow_append (ws_end_of_payload cb p u rest) b"
  by (auto simp: ws_end_of_payload_def flow_append_def split: prod.splits)

lemma flow_append_simps [simp]:
  "flow_append (p, u, Return rc) b = (p, u, Return rc)"
  "flow_append (p, u, Continue rest) b = (p, u, Continue (rest @ b))"
  "flow_append (if c then r else s) b = (if c then flow_append r b else flow_append s b)"
  by (simp_all add: flow_append_def)

lemma flow_append_push:
  "flow_append (let x = t in f x) b = (let x = t in flow_append (f x) b)"
  "flow_append (case q of (x, y) \<Rightarrow> g x y) b = (case q of (x, y) \<Rightarrow> flow_append (g x y) b)"
  by (simp_all add: Let_def case_prod_unfold)

lemmas flow_append_rules = flow_append_push flow_append_simps ws_end_of_payload_append [symmetric]

lemma ws_round_append:
  "ws_opcode cb p u x (rest @ b) = flow_append (ws_opcode cb p u x rest) b"
  "ws_length cb p u x (rest @ b) = flow_append (ws_length cb p u x rest) b"
  "ws_length_last p u x lim (rest @ b) = flow_append (ws_length_last p u x lim rest) b"
  "ws_mask_last cb p u x (rest @ b) = flow_append (ws_mask_last cb p u x rest) b"
  by (simp_all only: ws_opcode_def ws_length_def ws_length_last_def ws_mask_last_def flow_append_rules)

text \<open>A round that does not use up the whole buffer as payload does not look beyond what it consumes.\<close>

lemma ws_step_append:
  assumes "buff \<noteq> []" "wp_state p \<noteq> S_PAYLOAD \<or> unat (wp_bytes_remaining p) \<le> length buff"
  shows "ws_step cb p u (buff @ b) = flow_append (ws_step cb p u buff) b"
proof (cases "wp_state p = S_PAYLOAD")
  case True
  then have "unat (wp_bytes_remaining p) \<le> length buff" using assms(2) by simp
  then show ?thesis
    using True
    by (simp add: ws_step_def ws_payload_alt ws_payload_done_def Let_def min_absorb2
        ws_end_of_payload_append case_prod_unfold)
next
  case False
  obtain x xs where "buff = x # xs" using assms(1) by (cases buff) auto
  then show ?thesis
    using False
    by (cases "wp_state p") (simp_all add: ws_step_def ws_round_append)
qed

text \<open>A buffer that ends inside a payload, followed by another one.\<close>

lemma execute_inside_payload:
  assumes "wp_state p = S_PAYLOAD" "a \<noteq> []" "length a < unat (wp_bytes_remaining p)"
  shows "ws_parser_execute cb p u a =
    (let (chunk, pos) = ws_chunk p a; r = on_payload cb p chunk u; p1 = p\<lparr>wp_mask_pos := pos\<rparr> in
     if fst r \<noteq> 0 then (fst r, p1, snd r)
     else (WS_OK, p1\<lparr>wp_bytes_remaining := wp_bytes_remaining p - of_nat (length a)\<rparr>, snd r))"
proof -
  have "wp_bytes_remaining p - of_nat (length a) \<noteq> 0"
    using assms(3) by (metis eq_iff_diff_eq_0 le_less_trans less_irrefl of_nat_unat unat_of_nat mod_less_eq_dividend)
  then show ?thesis
    using assms
    by (subst ws_parser_execute.simps)
      (simp add: ws_step_def ws_payload_alt ws_payload_done_def case_prod_unfold Let_def)
qed

lemma execute_payload:
  assumes "wp_state p = S_PAYLOAD" "buff \<noteq> []" "n = min (length buff) (unat (wp_bytes_remaining p))"
  shows "ws_parser_execute cb p u buff =
    (case ws_payload_done cb p (snd (ws_chunk p (take n buff))) (wp_bytes_remaining p - of_nat n)
        (on_payload cb p (fst (ws_chunk p (take n buff))) u) (drop n buff) of
       (p', u', Return rc) \<Rightarrow> (rc, p', u')
     | (p', u', Continue rest) \<Rightarrow> ws_parser_execute cb p' u' rest)"
  using assms by (subst ws_parser_execute.simps) (simp add: ws_step_def ws_payload_alt case_prod_unfold Let_def)

locale chunked_callbacks =
  fixes cb :: "'u ws_callbacks"
  assumes data_split: "x \<noteq> [] \<Longrightarrow> y \<noteq> []
      \<Longrightarrow> agree (on_data_payload cb (x @ y) u) (and_then (on_data_payload cb x u) (on_data_payload cb y))"
    and control_split: "x \<noteq> [] \<Longrightarrow> y \<noteq> []
      \<Longrightarrow> agree (on_control_payload cb (x @ y) u) (and_then (on_control_payload cb x u) (on_control_payload cb y))"
begin

lemma payload_split:
  "x \<noteq> [] \<Longrightarrow> y \<noteq> []
   \<Longrightarrow> agree (on_payload cb p (x @ y) u) (and_then (on_payload cb p x u) (on_payload cb p y))"
  by (simp add: on_payload_def data_split control_split)

lemma ws_payload_split:
  assumes p: "wp_state p = S_PAYLOAD" and ab: "a \<noteq> []" "b \<noteq> []"
    and len: "length a < unat (wp_bytes_remaining p)"
  shows "agree (ws_parser_execute cb p u (a @ b))
    (and_then (ws_parser_execute cb p u a) (\<lambda>(p1, u1). ws_parser_execute cb p1 u1 b))"
proof -
  define p1 where "p1 = p\<lparr>wp_mask_pos := snd (ws_chunk p a)\<rparr>"
  define rem1 where "rem1 = wp_bytes_remaining p - of_nat (length a)"
  define p2 where "p2 = p1\<lparr>wp_bytes_remaining := rem1\<rparr>"
  define n where "n = min (length b) (unat rem1)"
  have rem1: "unat rem1 = unat (wp_bytes_remaining p) - length a"
    unfolding rem1_def using len
    by (metis le_unat_uoi less_or_eq_imp_le unat_sub word_le_nat_alt)
  then have n: "length a + n = min (length (a @ b)) (unat (wp_bytes_remaining p))" and "n > 0"
    using len ab by (simp_all add: n_def)
  then have nb: "take n b \<noteq> []" using ab by (cases b; cases n) auto
  have p2: "wp_state p2 = S_PAYLOAD" "wp_bytes_remaining p2 = rem1" "ws_chunk p2 = ws_chunk p1"
      "on_payload cb p2 = on_payload cb p"
    using p by (simp_all add: p2_def p1_def ws_chunk_def on_payload_def fun_eq_iff)
  have rem: "wp_bytes_remaining p - (of_nat (length a) + of_nat n) = rem1 - of_nat n"
    by (simp add: rem1_def)
  let ?chunk = "ws_chunk p1 (take n b)"
  let ?ra = "on_payload cb p (fst (ws_chunk p a)) u"
  let ?rb = "on_payload cb p (fst ?chunk) (snd ?ra)"
  let ?r = "on_payload cb p (fst (ws_chunk p a) @ fst ?chunk) u"
  have law: "agree ?r (and_then ?ra (on_payload cb p (fst ?chunk)))"
    using payload_split ab(1) nb by simp
  have ea: "ws_parser_execute cb p u a = (if fst ?ra \<noteq> 0 then (fst ?ra, p1, snd ?ra) else (WS_OK, p2, snd ?ra))"
    using execute_inside_payload [OF p ab(1) len, of cb u]
    by (simp add: p1_def p2_def rem1_def case_prod_unfold Let_def)
  have eab: "ws_parser_execute cb p u (a @ b) =
      (case ws_payload_done cb p (snd ?chunk) (rem1 - of_nat n) ?r (drop n b) of
         (p', u', Return rc) \<Rightarrow> (rc, p', u') | (p', u', Continue rest) \<Rightarrow> ws_parser_execute cb p' u' rest)"
    using execute_payload [OF p _ n, of cb u] ab by (simp add: ws_chunk_append p1_def rem)
  have eb: "ws_parser_execute cb p2 (snd ?ra) b =
      (case ws_payload_done cb p2 (snd ?chunk) (rem1 - of_nat n) ?rb (drop n b) of
         (p', u', Return rc) \<Rightarrow> (rc, p', u') | (p', u', Continue rest) \<Rightarrow> ws_parser_execute cb p' u' rest)"
    using execute_payload [OF p2(1) ab(2), of n cb "snd ?ra"] p2 n_def by simp
  have same: "ws_payload_done cb p2 pos rem r rest = ws_payload_done cb p pos rem r rest" if "fst r = 0" for pos rem r rest
    using that by (simp add: ws_payload_done_def p2_def p1_def)
  have "?r = ?rb" if "fst ?ra = 0" "fst ?rb = 0"
    using law that by (auto simp: agree_def and_then_def prod_eq_iff)
  then show ?thesis
    using law same [of ?rb] eb
    by (cases "fst ?ra = 0"; cases "fst ?rb = 0")
      (simp_all add: ea eab agree_def and_then_def ws_codes ws_payload_done_error)
qed

lemma execute_append:
  "agree (ws_parser_execute cb p u (a @ b))
    (and_then (ws_parser_execute cb p u a) (\<lambda>(p1, u1). ws_parser_execute cb p1 u1 b))"
proof (induction "2 * length a + (if wp_state p = S_PAYLOAD then 1 else 0)" arbitrary: p u a rule: less_induct)
  case less
  consider "a = []" | "b = []" | "a \<noteq> []" "b \<noteq> []" "wp_state p = S_PAYLOAD" "length a < unat (wp_bytes_remaining p)"
    | "a \<noteq> []" "wp_state p \<noteq> S_PAYLOAD \<or> unat (wp_bytes_remaining p) \<le> length a"
    by force
  then show ?case
  proof cases
    case 4
    obtain p1 u1 f where st: "ws_step cb p u a = (p1, u1, f)" by (cases "ws_step cb p u a")
    note ap = ws_step_append [OF 4, of cb u b]
    show ?thesis
    proof (cases f)
      case (Return rc)
      then show ?thesis
        using st ap 4(1) ws_step_return [of cb p u a p1 u1 rc]
        by (subst (1 2) ws_parser_execute.simps) (simp add: agree_def and_then_def)
    next
      case (Continue rest)
      then show ?thesis
        using st ap 4(1) less [OF ws_step_progress [of cb p u a p1 u1 rest], of u1]
        by (subst (1 2) ws_parser_execute.simps) simp
    qed
  qed (auto simp: agree_def and_then_def ws_codes ws_payload_split [unfolded agree_def and_then_def])
qed

end

subsection \<open>The bytes of a frame\<close>

text \<open>
  Reference: the encoding of RFC 6455, section 5.2.  \<open>ws_frame fin opcode key d\<close> is the frame with
  payload \<open>d\<close>, masked with \<open>key\<close> if there is one.
\<close>

definition ws_frame_head :: "bool \<Rightarrow> byte \<Rightarrow> byte" where
  "ws_frame_head fin opcode = (if fin then 0x80 OR opcode else opcode)"

definition ws_length_field :: "bool \<Rightarrow> 64 word \<Rightarrow> byte list" where
  "ws_length_field masked n =
     (let m = (if masked then 0x80 else 0) in
      if n < 126 then [m OR byte_of 0 n]
      else if n < 65536 then [m OR 126, byte_of 1 n, byte_of 0 n]
      else [m OR 127, byte_of 7 n, byte_of 6 n, byte_of 5 n, byte_of 4 n, byte_of 3 n, byte_of 2 n,
            byte_of 1 n, byte_of 0 n])"

definition ws_frame :: "bool \<Rightarrow> byte \<Rightarrow> byte list option \<Rightarrow> byte list \<Rightarrow> byte list" where
  "ws_frame fin opcode key d =
     ws_frame_head fin opcode # ws_length_field (key \<noteq> None) (of_nat (length d)) @
     (case key of None \<Rightarrow> d | Some k \<Rightarrow> k @ fst (ws_unmask k 0 d))"

definition is_control :: "byte \<Rightarrow> bool" where
  "is_control opcode \<longleftrightarrow> opcode \<in> {WS_FRAME_CLOSE, WS_FRAME_PING, WS_FRAME_PONG}"

definition is_data :: "byte \<Rightarrow> bool" where
  "is_data opcode \<longleftrightarrow> opcode \<in> {WS_FRAME_TEXT, WS_FRAME_BINARY}"

text \<open>The calls a complete frame makes; a continuation frame has opcode 0.\<close>

definition ws_frame_calls :: "'u ws_callbacks \<Rightarrow> bool \<Rightarrow> byte \<Rightarrow> byte list \<Rightarrow> 'u \<Rightarrow> int \<times> 'u" where
  "ws_frame_calls cb fin opcode d u =
     and_then (if opcode = 0 then (0, u)
               else if is_control opcode then on_control_begin cb opcode u else on_data_begin cb opcode u)
       (\<lambda>u. and_then (if d = [] then (0, u)
                      else if is_control opcode then on_control_payload cb d u else on_data_payload cb d u)
         (\<lambda>u. if is_control opcode then on_control_end cb u
              else if fin then on_data_end cb u else (0, u)))"

definition ws_resume :: "'u ws_callbacks \<Rightarrow> 'u ws_result \<Rightarrow> int \<times> ws_parser \<times> 'u" where
  "ws_resume cb r =
     (case r of (p, u, Return rc) \<Rightarrow> (rc, p, u) | (p, u, Continue rest) \<Rightarrow> ws_parser_execute cb p u rest)"

lemma ws_resume_simps [simp]:
  "ws_resume cb (p, u, Return rc) = (rc, p, u)"
  "ws_resume cb (p, u, Continue rest) = ws_parser_execute cb p u rest"
  by (simp_all add: ws_resume_def)

lemma execute_Cons: "ws_parser_execute cb p u (x # xs) = ws_resume cb (ws_step cb p u (x # xs))"
  by (subst ws_parser_execute.simps) (simp add: ws_resume_def)

lemma small_length_byte:
  assumes "n < (126 :: 64 word)"
  shows "(0x80 OR byte_of 0 n) AND 0x7f = byte_of 0 n" "byte_of 0 n AND 0x7f = byte_of 0 n"
    "(0x80 OR byte_of 0 n) AND 0x80 \<noteq> 0" "byte_of 0 n AND 0x80 = 0" "ucast (byte_of 0 n) = n" "byte_of 0 n < 126"
proof -
  have "list_all (\<lambda>k. let n = of_nat k; c = byte_of 0 n in (0x80 OR c) AND 0x7f = c \<and> c AND 0x7f = c \<and>
    (0x80 OR c) AND 0x80 \<noteq> 0 \<and> c AND 0x80 = 0 \<and> ucast c = n \<and> c < 126) [0..<126]"
    by code_simp
  moreover have "unat n \<in> set [0..<126]"
    using assms by (simp add: word_less_nat_alt)
  ultimately have "let c = byte_of 0 n in (0x80 OR c) AND 0x7f = c \<and> c AND 0x7f = c \<and>
    (0x80 OR c) AND 0x80 \<noteq> 0 \<and> c AND 0x80 = 0 \<and> ucast c = n \<and> c < 126"
    by (auto simp: list_all_iff Let_def simp del: set_upt dest: bspec [where x = "unat n"])
  then show "(0x80 OR byte_of 0 n) AND 0x7f = byte_of 0 n" "byte_of 0 n AND 0x7f = byte_of 0 n"
    "(0x80 OR byte_of 0 n) AND 0x80 \<noteq> 0" "byte_of 0 n AND 0x80 = 0" "ucast (byte_of 0 n) = n" "byte_of 0 n < 126"
    by (simp_all add: Let_def)
qed

lemma execute_opcode:
  assumes "wp_state p = S_OPCODE" "opcode = 0 \<and> wp_fragment p \<or> is_data opcode \<or> is_control opcode \<and> fin"
    and "(if opcode = 0 then (0, u)
          else if is_control opcode then on_control_begin cb opcode u else on_data_begin cb opcode u) = (0, u1)"
  shows "ws_parser_execute cb p u (ws_frame_head fin opcode # rest) =
    ws_parser_execute cb (p\<lparr>wp_fin := fin, wp_control := is_control opcode,
      wp_fragment := (if is_data opcode then \<not> fin else wp_fragment p), wp_state := S_LENGTH\<rparr>) u1 rest"
  using assms
  by (cases fin)
    (auto simp: execute_Cons ws_step_def ws_opcode_def ws_frame_head_def is_data_def is_control_def ws_frame_types Let_def)

lemma execute_length_16:
  assumes "wp_state p = S_LENGTH" "\<not> wp_control p" "126 \<le> n" "n < 65536"
  shows "ws_parser_execute cb p u (ws_length_field m n @ rest) =
    ws_parser_execute cb (p\<lparr>wp_mask_flag := m, wp_mask_pos := 0, wp_bytes_remaining := n,
      wp_state := (if m then S_MASK_0 else S_PAYLOAD)\<rparr>) u rest"
proof -
  have "\<not> n < 126" using assms(3) by (simp add: not_less)
  note b = bytes2 [OF assms(4)] this
  show ?thesis
    using assms b
    by (cases m) (simp_all add: ws_length_field_def execute_Cons ws_step_def ws_length_def ws_length_first_def
        ws_length_last_def ws_length_byte_def after_length_def Let_def)
qed

lemma execute_length_64:
  assumes "wp_state p = S_LENGTH" "\<not> wp_control p" "65536 \<le> n"
  shows "ws_parser_execute cb p u (ws_length_field m n @ rest) =
    ws_parser_execute cb (p\<lparr>wp_mask_flag := m, wp_mask_pos := 0, wp_bytes_remaining := n,
      wp_state := (if m then S_MASK_0 else S_PAYLOAD)\<rparr>) u rest"
proof -
  have "\<not> n < 126" "\<not> n < 65536"
    using assms(3) by (auto simp: not_less word_le_nat_alt)
  note b = bytes8 [of n] this
  show ?thesis
    using assms b
    by (cases m) (simp_all add: ws_length_field_def execute_Cons ws_step_def ws_length_def ws_length_first_def
        ws_length_last_def ws_length_byte_def after_length_def Let_def)
qed

lemma ws_length_small:
  assumes "cur AND 0x7f = len" "len < 126"
  shows "ws_length cb p u cur rest =
    (let m = (cur AND 0x80 \<noteq> 0);
         p1 = p\<lparr>wp_mask_flag := m, wp_mask_pos := 0, wp_bytes_remaining := ucast len,
           wp_state := (if m then S_MASK_0 else S_PAYLOAD)\<rparr> in
     if \<not> m \<and> (ucast len :: 64 word) = 0 then ws_end_of_payload cb p1 u rest else (p1, u, Continue rest))"
proof -
  have "\<not> 125 < len"
    using assms(2) by (simp add: word_less_nat_alt)
  then show ?thesis
    using assms by (simp add: ws_length_def after_length_def Let_def)
qed

lemma execute_length:
  assumes "wp_state p = S_LENGTH" "\<not> wp_control p \<or> n < 126"
  shows "ws_parser_execute cb p u (ws_length_field m n @ rest) =
    (let p1 = p\<lparr>wp_mask_flag := m, wp_mask_pos := 0, wp_bytes_remaining := n,
          wp_state := (if m then S_MASK_0 else S_PAYLOAD)\<rparr> in
     if \<not> m \<and> n = 0 then ws_resume cb (ws_end_of_payload cb p1 u rest)
     else ws_parser_execute cb p1 u rest)"
proof (cases "n < 126")
  case True
  let ?cur = "(if m then 0x80 else 0) OR byte_of 0 n"
  have cur: "?cur AND 0x7f = byte_of 0 n" "(?cur AND 0x80 \<noteq> 0) = m"
    using small_length_byte [OF True] by simp_all
  have "ws_step cb p u (ws_length_field m n @ rest) = ws_length cb p u ?cur rest"
    using assms True by (simp add: ws_length_field_def ws_step_def)
  moreover have "ws_length_field m n @ rest = ?cur # rest"
    using True by (simp add: ws_length_field_def)
  ultimately show ?thesis
    using ws_length_small [OF cur(1) small_length_byte(6) [OF True], of cb p u rest] cur(2) small_length_byte(5) [OF True]
    by (simp only: execute_Cons) (simp add: Let_def)
next
  case False
  then have "\<not> wp_control p" "n \<noteq> 0" using assms by auto
  then show ?thesis
    using False execute_length_16 [OF assms(1), of n cb u m rest] execute_length_64 [OF assms(1), of n cb u m rest]
    by (cases "n < 65536") (simp_all add: Let_def not_less)
qed

lemma execute_mask:
  assumes "wp_state p = S_MASK_0" "length (wp_mask p) = 4" "length k = 4"
  shows "ws_parser_execute cb p u (k @ rest) =
    (let p1 = p\<lparr>wp_mask := k, wp_state := S_PAYLOAD\<rparr> in
     if wp_bytes_remaining p = 0 then ws_resume cb (ws_end_of_payload cb p1 u rest)
     else ws_parser_execute cb p1 u rest)"
proof -
  obtain a b c d where k: "k = [a, b, c, d]"
    using assms(3) by (auto simp: length_Suc_conv numeral_eq_Suc)
  obtain a' b' c' d' where m: "wp_mask p = [a', b', c', d']"
    using assms(2) by (auto simp: length_Suc_conv numeral_eq_Suc)
  show ?thesis
    using assms(1) m
    by (simp add: k execute_Cons ws_step_def ws_mask_byte_def ws_mask_last_def numeral_eq_Suc Let_def)
qed

lemma execute_payload_all:
  assumes "wp_state p = S_PAYLOAD" "d \<noteq> []" "wp_bytes_remaining p = of_nat (length d)" "length d < 2 ^ 64"
    and "on_payload cb p (fst (ws_chunk p d)) u = (0, u1)"
  shows "ws_parser_execute cb p u (d @ rest) =
    ws_resume cb (ws_end_of_payload cb (p\<lparr>wp_mask_pos := snd (ws_chunk p d), wp_bytes_remaining := 0\<rparr>) u1 rest)"
proof -
  have "unat (wp_bytes_remaining p) = length d"
    using assms(3,4) by (simp add: unat_of_nat)
  then show ?thesis
    using assms execute_payload [OF assms(1), of "d @ rest" "length d" cb u]
    by (simp add: ws_payload_done_def ws_resume_def)
qed

lemma ws_unmask_involution:
  "fst (ws_unmask k pos (fst (ws_unmask k pos d))) = d"
proof (induction d arbitrary: pos)
  case (Cons b d)
  then show ?case
    using Cons.IH [of "pos + 1"] by (simp add: case_prod_unfold Let_def xor.assoc)
qed simp

text \<open>\<open>ws_end_of_payload\<close> when the callback accepts: the parser is back at the start of a frame.\<close>

lemma resume_end_of_payload:
  assumes "(if wp_control p then on_control_end cb u else if wp_fin p then on_data_end cb u else (0, u)) = (0, u')"
  shows "ws_resume cb (ws_end_of_payload cb p u rest) = ws_parser_execute cb (p\<lparr>wp_state := S_OPCODE\<rparr>) u' rest"
  using assms by (auto simp: ws_end_of_payload_def split: if_splits)

lemma execute_body:
  assumes p: "wp_state p = S_LENGTH" "length (wp_mask p) = 4" and d: "length d < 2 ^ 64" "wp_control p \<longrightarrow> length d < 126"
    and k: "\<And>k. key = Some k \<Longrightarrow> length k = 4"
    and u1: "(if d = [] then (0, u) else on_payload cb p d u) = (0, u1)"
    and u2: "(if wp_control p then on_control_end cb u1 else if wp_fin p then on_data_end cb u1 else (0, u1)) = (0, u2)"
  shows "\<exists>p'. wp_state p' = S_OPCODE \<and> length (wp_mask p') = 4 \<and> wp_fragment p' = wp_fragment p \<and>
    ws_parser_execute cb p u (ws_length_field (key \<noteq> None) (of_nat (length d)) @
      (case key of None \<Rightarrow> d | Some k \<Rightarrow> k @ fst (ws_unmask k 0 d)) @ rest) = ws_parser_execute cb p' u2 rest"
proof -
  let ?n = "of_nat (length d) :: 64 word"
  have n: "?n = 0 \<longleftrightarrow> d = []" "\<not> wp_control p \<or> ?n < 126"
    using d by (auto simp: unat_of_nat word_less_nat_alt simp flip: unat_0_iff)
  define p1 where "p1 = p\<lparr>wp_mask_flag := (key \<noteq> None), wp_mask_pos := 0, wp_bytes_remaining := ?n,
    wp_mask := (case key of None \<Rightarrow> wp_mask p | Some k \<Rightarrow> k), wp_state := S_PAYLOAD\<rparr>"
  define body where "body = (case key of None \<Rightarrow> d | Some k \<Rightarrow> fst (ws_unmask k 0 d))"
  have header: "ws_parser_execute cb p u (ws_length_field (key \<noteq> None) ?n @
      (case key of None \<Rightarrow> d | Some k \<Rightarrow> k @ fst (ws_unmask k 0 d)) @ rest) =
    (if d = [] then ws_resume cb (ws_end_of_payload cb p1 u rest) else ws_parser_execute cb p1 u (body @ rest))"
    using p n k by (cases key) (simp_all add: execute_length execute_mask p1_def body_def Let_def)
  have chunk: "fst (ws_chunk p1 body) = d"
    by (cases key) (simp_all add: ws_chunk_def p1_def body_def ws_unmask_involution)
  have body: "length body = length d" "body = [] \<longleftrightarrow> d = []"
    using length_ws_unmask [of _ 0 d] by (auto simp: body_def split: option.split simp flip: length_0_conv)
  define p2 where "p2 = (if d = [] then p1 else p1\<lparr>wp_mask_pos := snd (ws_chunk p1 body), wp_bytes_remaining := 0\<rparr>)"
  have "ws_parser_execute cb p u (ws_length_field (key \<noteq> None) ?n @
      (case key of None \<Rightarrow> d | Some k \<Rightarrow> k @ fst (ws_unmask k 0 d)) @ rest) =
    ws_resume cb (ws_end_of_payload cb p2 u1 rest)"
    using header u1 execute_payload_all [of p1 body cb u u1 rest] body chunk d(1)
    by (auto simp: p2_def p1_def on_payload_def)
  moreover have "ws_resume cb (ws_end_of_payload cb p2 u1 rest) = ws_parser_execute cb (p2\<lparr>wp_state := S_OPCODE\<rparr>) u2 rest"
    using u2 by (intro resume_end_of_payload) (auto simp: p2_def p1_def split: if_splits)
  moreover have "length (wp_mask p2) = 4"
    using p k by (auto simp: p2_def p1_def split: option.split)
  ultimately show ?thesis
    by (intro exI [of _ "p2\<lparr>wp_state := S_OPCODE\<rparr>"]) (simp add: p2_def p1_def)
qed

text \<open>Parsing the bytes of a frame makes exactly the calls of that frame.\<close>

lemma ws_frame_parses:
  assumes p: "wp_state p = S_OPCODE" "length (wp_mask p) = 4"
    and op: "opcode = 0 \<and> wp_fragment p \<or> is_data opcode \<or> is_control opcode \<and> fin \<and> length d < 126"
    and d: "length d < 2 ^ 64" and k: "\<And>k. key = Some k \<Longrightarrow> length k = 4"
    and calls: "ws_frame_calls cb fin opcode d u = (0, u')"
  shows "\<exists>p'. wp_state p' = S_OPCODE \<and> length (wp_mask p') = 4 \<and>
    wp_fragment p' = (if is_data opcode then \<not> fin else wp_fragment p) \<and>
    ws_parser_execute cb p u (ws_frame fin opcode key d @ rest) = ws_parser_execute cb p' u' rest"
proof -
  obtain u1 u2 where u: "(if opcode = 0 then (0, u)
        else if is_control opcode then on_control_begin cb opcode u else on_data_begin cb opcode u) = (0, u1)"
      "(if d = [] then (0, u1) else if is_control opcode then on_control_payload cb d u1 else on_data_payload cb d u1) = (0, u2)"
      "(if is_control opcode then on_control_end cb u2 else if fin then on_data_end cb u2 else (0, u2)) = (0, u')"
    using calls by (auto simp: ws_frame_calls_def and_then_def prod_eq_iff split: if_splits)
  let ?p = "p\<lparr>wp_fin := fin, wp_control := is_control opcode,
    wp_fragment := (if is_data opcode then \<not> fin else wp_fragment p), wp_state := S_LENGTH\<rparr>"
  have op': "opcode = 0 \<and> wp_fragment p \<or> is_data opcode \<or> is_control opcode \<and> fin"
    using op by blast
  have "wp_control ?p \<longrightarrow> length d < 126"
    using op by (auto simp: is_data_def is_control_def ws_frame_types)
  moreover have "(if d = [] then (0, u1) else on_payload cb ?p d u1) = (0, u2)"
    using u(2) by (auto simp: on_payload_def split: if_splits)
  moreover have "(if wp_control ?p then on_control_end cb u2 else if wp_fin ?p then on_data_end cb u2 else (0, u2)) = (0, u')"
    using u(3) by (auto split: if_splits)
  ultimately have "\<exists>p'. wp_state p' = S_OPCODE \<and> length (wp_mask p') = 4 \<and> wp_fragment p' = wp_fragment ?p \<and>
    ws_parser_execute cb ?p u1 (ws_length_field (key \<noteq> None) (of_nat (length d)) @
      (case key of None \<Rightarrow> d | Some k \<Rightarrow> k @ fst (ws_unmask k 0 d)) @ rest) = ws_parser_execute cb p' u' rest"
    using p d k by (intro execute_body) simp_all
  then show ?thesis
    using execute_opcode [OF p(1) op' u(1)] by (simp add: ws_frame_def)
qed

end
