(* ===== verification/Http_Types.thy ===== *)
theory Http_Types
  imports Bytes
begin

text \<open>
  Types and tables of the HTTP parser (\<open>include/futures/http/http_parser.h\<close> and the first part of
  \<open>src/http/http_parser.c\<close>), as compiled with the default \<open>HTTP_PARSER_STRICT = 1\<close>: states,
  header states, methods, error numbers, flags, character classes, the parser struct, and
  the byte-wise URL automaton.
\<close>

subsection \<open>Enumerations\<close>

datatype (plugins only: code) http_state =
    s_dead | s_start_req_or_res | s_res_or_resp_H | s_start_res
  | s_res_H | s_res_HT | s_res_HTT | s_res_HTTP
  | s_res_first_http_major | s_res_http_major | s_res_first_http_minor | s_res_http_minor
  | s_res_first_status_code | s_res_status_code | s_res_status_start | s_res_status
  | s_res_line_almost_done | s_start_req | s_req_method | s_req_spaces_before_url
  | s_req_schema | s_req_schema_slash | s_req_schema_slash_slash | s_req_server_start
  | s_req_server | s_req_server_with_at | s_req_path | s_req_query_string_start
  | s_req_query_string | s_req_fragment_start | s_req_fragment | s_req_http_start
  | s_req_http_H | s_req_http_HT | s_req_http_HTT | s_req_http_HTTP
  | s_req_first_http_major | s_req_http_major | s_req_first_http_minor | s_req_http_minor
  | s_req_line_almost_done | s_header_field_start | s_header_field | s_header_value_discard_ws
  | s_header_value_discard_ws_almost_done | s_header_value_discard_lws | s_header_value_start | s_header_value
  | s_header_value_lws | s_header_almost_done | s_chunk_size_start | s_chunk_size
  | s_chunk_parameters | s_chunk_size_almost_done | s_headers_almost_done | s_headers_done
  | s_chunk_data | s_chunk_data_almost_done | s_chunk_data_done | s_body_identity
  | s_body_identity_eof | s_message_done

datatype (plugins only: code) header_state =
    h_general | h_C | h_CO | h_CON
  | h_matching_connection | h_matching_proxy_connection | h_matching_content_length | h_matching_transfer_encoding
  | h_matching_upgrade | h_connection | h_content_length | h_transfer_encoding
  | h_upgrade | h_matching_transfer_encoding_chunked | h_matching_connection_token_start | h_matching_connection_keep_alive
  | h_matching_connection_close | h_matching_connection_upgrade | h_matching_connection_token | h_transfer_encoding_chunked
  | h_connection_keep_alive | h_connection_close | h_connection_upgrade

datatype (plugins only: code) http_method =
    HTTP_DELETE | HTTP_GET | HTTP_HEAD | HTTP_POST
  | HTTP_PUT | HTTP_CONNECT | HTTP_OPTIONS | HTTP_TRACE
  | HTTP_COPY | HTTP_LOCK | HTTP_MKCOL | HTTP_MOVE
  | HTTP_PROPFIND | HTTP_PROPPATCH | HTTP_SEARCH | HTTP_UNLOCK
  | HTTP_BIND | HTTP_REBIND | HTTP_UNBIND | HTTP_ACL
  | HTTP_REPORT | HTTP_MKACTIVITY | HTTP_CHECKOUT | HTTP_MERGE
  | HTTP_MSEARCH | HTTP_NOTIFY | HTTP_SUBSCRIBE | HTTP_UNSUBSCRIBE
  | HTTP_PATCH | HTTP_PURGE | HTTP_MKCALENDAR | HTTP_LINK
  | HTTP_UNLINK

datatype http_parser_type = HTTP_REQUEST | HTTP_RESPONSE | HTTP_BOTH

datatype http_flag =
    F_CHUNKED | F_CONNECTION_KEEP_ALIVE | F_CONNECTION_CLOSE | F_CONNECTION_UPGRADE
  | F_TRAILING | F_UPGRADE | F_SKIPBODY | F_CONTENTLENGTH

datatype (plugins only: code) http_errno =
    HPE_OK | HPE_CB_message_begin | HPE_CB_url | HPE_CB_header_field
  | HPE_CB_header_value | HPE_CB_headers_complete | HPE_CB_body | HPE_CB_message_complete
  | HPE_CB_status | HPE_CB_chunk_header | HPE_CB_chunk_complete | HPE_INVALID_EOF_STATE
  | HPE_HEADER_OVERFLOW | HPE_CLOSED_CONNECTION | HPE_INVALID_VERSION | HPE_INVALID_STATUS
  | HPE_INVALID_METHOD | HPE_INVALID_URL | HPE_INVALID_HOST | HPE_INVALID_PORT
  | HPE_INVALID_PATH | HPE_INVALID_QUERY_STRING | HPE_INVALID_FRAGMENT | HPE_LF_EXPECTED
  | HPE_INVALID_HEADER_TOKEN | HPE_INVALID_CONTENT_LENGTH | HPE_UNEXPECTED_CONTENT_LENGTH | HPE_INVALID_CHUNK_SIZE
  | HPE_INVALID_CONSTANT | HPE_INVALID_INTERNAL_STATE | HPE_STRICT | HPE_PAUSED
  | HPE_UNKNOWN

text \<open>\<open>PARSING_HEADER(state)\<close>: the states up to \<open>s_headers_done\<close>.\<close>

definition parsing_header :: "http_state \<Rightarrow> bool" where
  "parsing_header s \<longleftrightarrow> s \<notin> {s_chunk_data, s_chunk_data_almost_done, s_chunk_data_done, s_body_identity, s_body_identity_eof, s_message_done}"

fun method_string :: "http_method \<Rightarrow> string" where
  "method_string HTTP_DELETE = ''DELETE''"
| "method_string HTTP_GET = ''GET''"
| "method_string HTTP_HEAD = ''HEAD''"
| "method_string HTTP_POST = ''POST''"
| "method_string HTTP_PUT = ''PUT''"
| "method_string HTTP_CONNECT = ''CONNECT''"
| "method_string HTTP_OPTIONS = ''OPTIONS''"
| "method_string HTTP_TRACE = ''TRACE''"
| "method_string HTTP_COPY = ''COPY''"
| "method_string HTTP_LOCK = ''LOCK''"
| "method_string HTTP_MKCOL = ''MKCOL''"
| "method_string HTTP_MOVE = ''MOVE''"
| "method_string HTTP_PROPFIND = ''PROPFIND''"
| "method_string HTTP_PROPPATCH = ''PROPPATCH''"
| "method_string HTTP_SEARCH = ''SEARCH''"
| "method_string HTTP_UNLOCK = ''UNLOCK''"
| "method_string HTTP_BIND = ''BIND''"
| "method_string HTTP_REBIND = ''REBIND''"
| "method_string HTTP_UNBIND = ''UNBIND''"
| "method_string HTTP_ACL = ''ACL''"
| "method_string HTTP_REPORT = ''REPORT''"
| "method_string HTTP_MKACTIVITY = ''MKACTIVITY''"
| "method_string HTTP_CHECKOUT = ''CHECKOUT''"
| "method_string HTTP_MERGE = ''MERGE''"
| "method_string HTTP_MSEARCH = ''M-SEARCH''"
| "method_string HTTP_NOTIFY = ''NOTIFY''"
| "method_string HTTP_SUBSCRIBE = ''SUBSCRIBE''"
| "method_string HTTP_UNSUBSCRIBE = ''UNSUBSCRIBE''"
| "method_string HTTP_PATCH = ''PATCH''"
| "method_string HTTP_PURGE = ''PURGE''"
| "method_string HTTP_MKCALENDAR = ''MKCALENDAR''"
| "method_string HTTP_LINK = ''LINK''"
| "method_string HTTP_UNLINK = ''UNLINK''"

fun http_errno_name :: "http_errno \<Rightarrow> string" where
  "http_errno_name HPE_OK = ''HPE_OK''"
| "http_errno_name HPE_CB_message_begin = ''HPE_CB_message_begin''"
| "http_errno_name HPE_CB_url = ''HPE_CB_url''"
| "http_errno_name HPE_CB_header_field = ''HPE_CB_header_field''"
| "http_errno_name HPE_CB_header_value = ''HPE_CB_header_value''"
| "http_errno_name HPE_CB_headers_complete = ''HPE_CB_headers_complete''"
| "http_errno_name HPE_CB_body = ''HPE_CB_body''"
| "http_errno_name HPE_CB_message_complete = ''HPE_CB_message_complete''"
| "http_errno_name HPE_CB_status = ''HPE_CB_status''"
| "http_errno_name HPE_CB_chunk_header = ''HPE_CB_chunk_header''"
| "http_errno_name HPE_CB_chunk_complete = ''HPE_CB_chunk_complete''"
| "http_errno_name HPE_INVALID_EOF_STATE = ''HPE_INVALID_EOF_STATE''"
| "http_errno_name HPE_HEADER_OVERFLOW = ''HPE_HEADER_OVERFLOW''"
| "http_errno_name HPE_CLOSED_CONNECTION = ''HPE_CLOSED_CONNECTION''"
| "http_errno_name HPE_INVALID_VERSION = ''HPE_INVALID_VERSION''"
| "http_errno_name HPE_INVALID_STATUS = ''HPE_INVALID_STATUS''"
| "http_errno_name HPE_INVALID_METHOD = ''HPE_INVALID_METHOD''"
| "http_errno_name HPE_INVALID_URL = ''HPE_INVALID_URL''"
| "http_errno_name HPE_INVALID_HOST = ''HPE_INVALID_HOST''"
| "http_errno_name HPE_INVALID_PORT = ''HPE_INVALID_PORT''"
| "http_errno_name HPE_INVALID_PATH = ''HPE_INVALID_PATH''"
| "http_errno_name HPE_INVALID_QUERY_STRING = ''HPE_INVALID_QUERY_STRING''"
| "http_errno_name HPE_INVALID_FRAGMENT = ''HPE_INVALID_FRAGMENT''"
| "http_errno_name HPE_LF_EXPECTED = ''HPE_LF_EXPECTED''"
| "http_errno_name HPE_INVALID_HEADER_TOKEN = ''HPE_INVALID_HEADER_TOKEN''"
| "http_errno_name HPE_INVALID_CONTENT_LENGTH = ''HPE_INVALID_CONTENT_LENGTH''"
| "http_errno_name HPE_UNEXPECTED_CONTENT_LENGTH = ''HPE_UNEXPECTED_CONTENT_LENGTH''"
| "http_errno_name HPE_INVALID_CHUNK_SIZE = ''HPE_INVALID_CHUNK_SIZE''"
| "http_errno_name HPE_INVALID_CONSTANT = ''HPE_INVALID_CONSTANT''"
| "http_errno_name HPE_INVALID_INTERNAL_STATE = ''HPE_INVALID_INTERNAL_STATE''"
| "http_errno_name HPE_STRICT = ''HPE_STRICT''"
| "http_errno_name HPE_PAUSED = ''HPE_PAUSED''"
| "http_errno_name HPE_UNKNOWN = ''HPE_UNKNOWN''"

fun http_errno_description :: "http_errno \<Rightarrow> string" where
  "http_errno_description HPE_OK = ''success''"
| "http_errno_description HPE_CB_message_begin = ''the on_message_begin callback failed''"
| "http_errno_description HPE_CB_url = ''the on_url callback failed''"
| "http_errno_description HPE_CB_header_field = ''the on_header_field callback failed''"
| "http_errno_description HPE_CB_header_value = ''the on_header_value callback failed''"
| "http_errno_description HPE_CB_headers_complete = ''the on_headers_complete callback failed''"
| "http_errno_description HPE_CB_body = ''the on_body callback failed''"
| "http_errno_description HPE_CB_message_complete = ''the on_message_complete callback failed''"
| "http_errno_description HPE_CB_status = ''the on_status callback failed''"
| "http_errno_description HPE_CB_chunk_header = ''the on_chunk_header callback failed''"
| "http_errno_description HPE_CB_chunk_complete = ''the on_chunk_complete callback failed''"
| "http_errno_description HPE_INVALID_EOF_STATE = ''stream ended at an unexpected time''"
| "http_errno_description HPE_HEADER_OVERFLOW = ''too many header bytes seen; overflow detected''"
| "http_errno_description HPE_CLOSED_CONNECTION = ''data received after completed connection: close message''"
| "http_errno_description HPE_INVALID_VERSION = ''invalid HTTP version''"
| "http_errno_description HPE_INVALID_STATUS = ''invalid HTTP status code''"
| "http_errno_description HPE_INVALID_METHOD = ''invalid HTTP method''"
| "http_errno_description HPE_INVALID_URL = ''invalid URL''"
| "http_errno_description HPE_INVALID_HOST = ''invalid host''"
| "http_errno_description HPE_INVALID_PORT = ''invalid port''"
| "http_errno_description HPE_INVALID_PATH = ''invalid path''"
| "http_errno_description HPE_INVALID_QUERY_STRING = ''invalid query string''"
| "http_errno_description HPE_INVALID_FRAGMENT = ''invalid fragment''"
| "http_errno_description HPE_LF_EXPECTED = ''LF character expected''"
| "http_errno_description HPE_INVALID_HEADER_TOKEN = ''invalid character in header''"
| "http_errno_description HPE_INVALID_CONTENT_LENGTH = ''invalid character in content-length header''"
| "http_errno_description HPE_UNEXPECTED_CONTENT_LENGTH = ''unexpected content-length header''"
| "http_errno_description HPE_INVALID_CHUNK_SIZE = ''invalid character in chunk size header''"
| "http_errno_description HPE_INVALID_CONSTANT = ''invalid constant string''"
| "http_errno_description HPE_INVALID_INTERNAL_STATE = ''encountered unexpected internal state''"
| "http_errno_description HPE_STRICT = ''strict mode assertion failed''"
| "http_errno_description HPE_PAUSED = ''parser is paused''"
| "http_errno_description HPE_UNKNOWN = ''an unknown error occurred''"

text \<open>The status lines of \<open>HTTP_STATUS_MAP\<close>.\<close>

definition http_status_map :: "(nat \<times> string) list" where
  "http_status_map =
   [(100, ''Continue''),
    (101, ''Switching Protocols''),
    (102, ''Processing''),
    (200, ''OK''),
    (201, ''Created''),
    (202, ''Accepted''),
    (203, ''Non-Authoritative Information''),
    (204, ''No Content''),
    (205, ''Reset Content''),
    (206, ''Partial Content''),
    (207, ''Multi-Status''),
    (208, ''Already Reported''),
    (226, ''IM Used''),
    (300, ''Multiple Choices''),
    (301, ''Moved Permanently''),
    (302, ''Found''),
    (303, ''See Other''),
    (304, ''Not Modified''),
    (305, ''Use Proxy''),
    (307, ''Temporary Redirect''),
    (308, ''Permanent Redirect''),
    (400, ''Bad Request''),
    (401, ''Unauthorized''),
    (402, ''Payment Required''),
    (403, ''Forbidden''),
    (404, ''Not Found''),
    (405, ''Method Not Allowed''),
    (406, ''Not Acceptable''),
    (407, ''Proxy Authentication Required''),
    (408, ''Request Timeout''),
    (409, ''Conflict''),
    (410, ''Gone''),
    (411, ''Length Required''),
    (412, ''Precondition Failed''),
    (413, ''Payload Too Large''),
    (414, ''URI Too Long''),
    (415, ''Unsupported Media Type''),
    (416, ''Range Not Satisfiable''),
    (417, ''Expectation Failed''),
    (421, ''Misdirected Request''),
    (422, ''Unprocessable Entity''),
    (423, ''Locked''),
    (424, ''Failed Dependency''),
    (426, ''Upgrade Required''),
    (428, ''Precondition Required''),
    (429, ''Too Many Requests''),
    (431, ''Request Header Fields Too Large''),
    (451, ''Unavailable For Legal Reasons''),
    (500, ''Internal Server Error''),
    (501, ''Not Implemented''),
    (502, ''Bad Gateway''),
    (503, ''Service Unavailable''),
    (504, ''Gateway Timeout''),
    (505, ''HTTP Version Not Supported''),
    (506, ''Variant Also Negotiates''),
    (507, ''Insufficient Storage''),
    (508, ''Loop Detected''),
    (510, ''Not Extended''),
    (511, ''Network Authentication Required'')]"

subsection \<open>Characters\<close>

text \<open>C's character constants are bytes here.\<close>

abbreviation cc :: "char \<Rightarrow> byte" where
  "cc c \<equiv> of_char c"

abbreviation CR :: byte where "CR \<equiv> 13"
abbreviation LF :: byte where "LF \<equiv> 10"

definition token_table :: "byte list" where
  "token_table =
   [0, 0, 0, 0, 0, 0, 0, 0, 0, 0, 0, 0, 0, 0, 0, 0,
    0, 0, 0, 0, 0, 0, 0, 0, 0, 0, 0, 0, 0, 0, 0, 0,
    0, 33, 0, 35, 36, 37, 38, 39, 0, 0, 42, 43, 0, 45, 46, 0,
    48, 49, 50, 51, 52, 53, 54, 55, 56, 57, 0, 0, 0, 0, 0, 0,
    0, 97, 98, 99, 100, 101, 102, 103, 104, 105, 106, 107, 108, 109, 110, 111,
    112, 113, 114, 115, 116, 117, 118, 119, 120, 121, 122, 0, 0, 0, 94, 95,
    96, 97, 98, 99, 100, 101, 102, 103, 104, 105, 106, 107, 108, 109, 110, 111,
    112, 113, 114, 115, 116, 117, 118, 119, 120, 121, 122, 0, 124, 0, 126, 0]"

definition TOKEN :: "byte \<Rightarrow> byte" where
  "TOKEN ch = (if ch < 128 then token_table ! unat ch else 0)"

definition unhex_table :: "int list" where
  "unhex_table =
   [-1, -1, -1, -1, -1, -1, -1, -1, -1, -1, -1, -1, -1, -1, -1, -1,
    -1, -1, -1, -1, -1, -1, -1, -1, -1, -1, -1, -1, -1, -1, -1, -1,
    -1, -1, -1, -1, -1, -1, -1, -1, -1, -1, -1, -1, -1, -1, -1, -1,
    0, 1, 2, 3, 4, 5, 6, 7, 8, 9, -1, -1, -1, -1, -1, -1,
    -1, 10, 11, 12, 13, 14, 15, -1, -1, -1, -1, -1, -1, -1, -1, -1,
    -1, -1, -1, -1, -1, -1, -1, -1, -1, -1, -1, -1, -1, -1, -1, -1,
    -1, 10, 11, 12, 13, 14, 15, -1, -1, -1, -1, -1, -1, -1, -1, -1,
    -1, -1, -1, -1, -1, -1, -1, -1, -1, -1, -1, -1, -1, -1, -1, -1]"

text \<open>Only the first half of \<open>unhex\<close> has initialisers; the other 128 entries are 0.\<close>

definition unhex :: "byte \<Rightarrow> int" where
  "unhex ch = (if ch < 128 then unhex_table ! unat ch else 0)"

definition normal_url_char :: "byte list" where
  "normal_url_char =
   [0, 0, 0, 0, 246, 255, 255, 127, 255, 255, 255, 255, 255, 255, 255, 127,
    0, 0, 0, 0, 0, 0, 0, 0, 0, 0, 0, 0, 0, 0, 0, 0]"

definition BIT_AT :: "byte list \<Rightarrow> byte \<Rightarrow> bool" where
  "BIT_AT a i = bit (a ! (unat i div 8)) (unat i mod 8)"

definition LOWER :: "byte \<Rightarrow> byte" where
  "LOWER c = c OR 0x20"

definition IS_ALPHA :: "byte \<Rightarrow> bool" where
  "IS_ALPHA c \<longleftrightarrow> cc CHR ''a'' \<le> LOWER c \<and> LOWER c \<le> cc CHR ''z''"

definition IS_NUM :: "byte \<Rightarrow> bool" where
  "IS_NUM c \<longleftrightarrow> cc CHR ''0'' \<le> c \<and> c \<le> cc CHR ''9''"

definition IS_ALPHANUM :: "byte \<Rightarrow> bool" where
  "IS_ALPHANUM c \<longleftrightarrow> IS_ALPHA c \<or> IS_NUM c"

definition IS_HEX :: "byte \<Rightarrow> bool" where
  "IS_HEX c \<longleftrightarrow> IS_NUM c \<or> cc CHR ''a'' \<le> LOWER c \<and> LOWER c \<le> cc CHR ''f''"

definition IS_MARK :: "byte \<Rightarrow> bool" where
  "IS_MARK c \<longleftrightarrow> c \<in> cc ` set ''-_.!~*'' \<or> c = 39 \<or> c \<in> cc ` set ''()''"

definition IS_USERINFO_CHAR :: "byte \<Rightarrow> bool" where
  "IS_USERINFO_CHAR c \<longleftrightarrow> IS_ALPHANUM c \<or> IS_MARK c \<or> c \<in> cc ` set ''%;:&=+$,''"

definition IS_URL_CHAR :: "byte \<Rightarrow> bool" where
  "IS_URL_CHAR c \<longleftrightarrow> BIT_AT normal_url_char c"

definition IS_HOST_CHAR :: "byte \<Rightarrow> bool" where
  "IS_HOST_CHAR c \<longleftrightarrow> IS_ALPHANUM c \<or> c = cc CHR ''.'' \<or> c = cc CHR ''-''"

definition IS_HEADER_CHAR :: "byte \<Rightarrow> bool" where
  "IS_HEADER_CHAR ch \<longleftrightarrow> ch = CR \<or> ch = LF \<or> ch = 9 \<or> 31 < ch \<and> ch \<noteq> 127"

subsection \<open>The URL automaton\<close>

definition url_server_char :: "byte \<Rightarrow> http_state" where
  "url_server_char ch =
     (if ch = cc CHR ''/'' then s_req_path
      else if ch = cc CHR ''?'' then s_req_query_string_start
      else if ch = cc CHR ''@'' then s_req_server_with_at
      else if IS_USERINFO_CHAR ch \<or> ch = cc CHR ''['' \<or> ch = cc CHR '']'' then s_req_server
      else s_dead)"

definition parse_url_char :: "http_state \<Rightarrow> byte \<Rightarrow> http_state" where
  "parse_url_char s ch =
     (if ch = cc CHR '' '' \<or> ch = CR \<or> ch = LF then s_dead
      else if ch = 9 \<or> ch = 12 then s_dead
      else if s = s_req_spaces_before_url then
        (if ch = cc CHR ''/'' \<or> ch = cc CHR ''*'' then s_req_path
         else if IS_ALPHA ch then s_req_schema else s_dead)
      else if s = s_req_schema then
        (if IS_ALPHA ch then s else if ch = cc CHR '':'' then s_req_schema_slash else s_dead)
      else if s = s_req_schema_slash then
        (if ch = cc CHR ''/'' then s_req_schema_slash_slash else s_dead)
      else if s = s_req_schema_slash_slash then
        (if ch = cc CHR ''/'' then s_req_server_start else s_dead)
      else if s = s_req_server_with_at then
        (if ch = cc CHR ''@'' then s_dead else url_server_char ch)
      else if s = s_req_server_start \<or> s = s_req_server then url_server_char ch
      else if s = s_req_path then
        (if IS_URL_CHAR ch then s
         else if ch = cc CHR ''?'' then s_req_query_string_start
         else if ch = cc CHR ''#'' then s_req_fragment_start else s_dead)
      else if s = s_req_query_string_start \<or> s = s_req_query_string then
        (if IS_URL_CHAR ch then s_req_query_string
         else if ch = cc CHR ''?'' then s_req_query_string
         else if ch = cc CHR ''#'' then s_req_fragment_start else s_dead)
      else if s = s_req_fragment_start then
        (if IS_URL_CHAR ch then s_req_fragment
         else if ch = cc CHR ''?'' then s_req_fragment
         else if ch = cc CHR ''#'' then s else s_dead)
      else if s = s_req_fragment then
        (if IS_URL_CHAR ch then s
         else if ch = cc CHR ''?'' \<or> ch = cc CHR ''#'' then s else s_dead)
      else s_dead)"

definition url_states :: "http_state list" where
  "url_states = [s_req_path, s_req_schema, s_req_schema_slash, s_req_schema_slash_slash,
     s_req_server_start, s_req_server, s_req_server_with_at, s_req_query_string_start,
     s_req_query_string, s_req_fragment_start, s_req_fragment]"

text \<open>The automaton stays in the URL states until it rejects the byte.\<close>

lemma parse_url_char_states: "parse_url_char s ch \<in> insert s_dead (set url_states)"
  by (simp add: parse_url_char_def url_server_char_def url_states_def)

subsection \<open>The parser struct\<close>

record http_parser =
  hp_type :: http_parser_type
  hp_flags :: "http_flag set"
  hp_state :: http_state
  hp_header_state :: header_state
  hp_index :: "7 word"
  hp_lenient :: bool
  hp_nread :: "32 word"
  hp_content_length :: "64 word"
  hp_major :: "16 word"
  hp_minor :: "16 word"
  hp_status_code :: "16 word"
  hp_method :: http_method
  hp_errno :: http_errno
  hp_upgrade :: bool

text \<open>
  A callback sees the parser and the client's state and returns its status and the new
  client state; \<open>None\<close> is a callback that aborts the program.  A data callback also gets the
  offset of its bytes in the buffer and the bytes.
\<close>

type_synonym 'u http_cb = "http_parser \<Rightarrow> 'u \<Rightarrow> (int \<times> 'u) option"
type_synonym 'u http_data_cb = "http_parser \<Rightarrow> nat \<Rightarrow> byte list \<Rightarrow> 'u \<Rightarrow> (int \<times> 'u) option"

record 'u http_parser_settings =
  on_message_begin :: "'u http_cb option"
  on_url :: "'u http_data_cb option"
  on_status :: "'u http_data_cb option"
  on_header_field :: "'u http_data_cb option"
  on_header_value :: "'u http_data_cb option"
  on_headers_complete :: "'u http_cb option"
  on_body :: "'u http_data_cb option"
  on_message_complete :: "'u http_cb option"
  on_chunk_header :: "'u http_cb option"
  on_chunk_complete :: "'u http_cb option"

definition HTTP_MAX_HEADER_SIZE :: "'a::len word" where
  "HTTP_MAX_HEADER_SIZE = 80 * 1024"

definition ULLONG_MAX :: "64 word" where
  "ULLONG_MAX = -1"

definition start_state :: "http_parser \<Rightarrow> http_state" where
  "start_state ps = (if hp_type ps = HTTP_REQUEST then s_start_req else s_start_res)"

definition http_message_needs_eof :: "http_parser \<Rightarrow> bool" where
  "http_message_needs_eof ps =
     (if hp_type ps = HTTP_REQUEST then False
      else if unat (hp_status_code ps) div 100 = 1 \<or> hp_status_code ps = 204
           \<or> hp_status_code ps = 304 \<or> F_SKIPBODY \<in> hp_flags ps then False
      else if F_CHUNKED \<in> hp_flags ps \<or> hp_content_length ps \<noteq> ULLONG_MAX then False
      else True)"

definition http_should_keep_alive :: "http_parser \<Rightarrow> bool" where
  "http_should_keep_alive ps =
     (if 0 < hp_major ps \<and> 0 < hp_minor ps then
        (if F_CONNECTION_CLOSE \<in> hp_flags ps then False else \<not> http_message_needs_eof ps)
      else
        (if F_CONNECTION_KEEP_ALIVE \<notin> hp_flags ps then False else \<not> http_message_needs_eof ps))"

definition NEW_MESSAGE :: "http_parser \<Rightarrow> http_state" where
  "NEW_MESSAGE ps = (if http_should_keep_alive ps then start_state ps else s_dead)"

definition http_parser_init :: "http_parser_type \<Rightarrow> http_parser" where
  "http_parser_init t = \<lparr>hp_type = t, hp_flags = {},
     hp_state = (if t = HTTP_REQUEST then s_start_req
                 else if t = HTTP_RESPONSE then s_start_res else s_start_req_or_res),
     hp_header_state = h_general, hp_index = 0, hp_lenient = False, hp_nread = 0,
     hp_content_length = 0, hp_major = 0, hp_minor = 0, hp_status_code = 0,
     hp_method = HTTP_DELETE, hp_errno = HPE_OK, hp_upgrade = False\<rparr>"

text \<open>\<open>http_parser_pause\<close> asserts that the parser is running or paused.\<close>

definition http_parser_pause :: "bool \<Rightarrow> http_parser \<Rightarrow> http_parser option" where
  "http_parser_pause paused ps =
     (if hp_errno ps = HPE_OK \<or> hp_errno ps = HPE_PAUSED
      then Some (ps\<lparr>hp_errno := if paused then HPE_PAUSED else HPE_OK\<rparr>)
      else None)"

definition http_body_is_final :: "http_parser \<Rightarrow> bool" where
  "http_body_is_final ps \<longleftrightarrow> hp_state ps = s_message_done"

end
