(* ===== verification/Http_Parser.thy ===== *)
theory Http_Parser
  imports Http_Types
begin

text \<open>
  \<open>http_parser_execute\<close> of \<open>src/http/http_parser.c\<close>.  The parser struct and the locals of the
  function form one record, so that a state of the \<open>switch\<close> is a definition that updates it
  and says how its \<open>case\<close> ends: \<open>break\<close>, \<open>goto reexecute\<close>, \<open>return\<close>, \<open>goto error\<close>, or a failed
  \<open>assert\<close> (or a read outside an array), which is \<open>Crash\<close>.  The local \<open>p_state\<close> is
  written back to \<open>parser->state\<close> on every exit and before every callback but
  \<open>on_headers_complete\<close>, so the field \<open>hp_state\<close> stands for both; callbacks may read every
  other field.  Callbacks do not change the parser.
\<close>

subsection \<open>Locals, exits and macros\<close>

record 'u hx = http_parser +
  hx_user :: 'u
  hx_p :: nat
  hx_header_field :: "nat option"
  hx_header_value :: "nat option"
  hx_url :: "nat option"
  hx_body :: "nat option"
  hx_status :: "nat option"

datatype http_flow = Break | Reexecute | Return nat | Error | Crash

type_synonym 'u http_exit = "'u hx \<times> http_flow"

definition GOTO_ERROR :: "http_errno \<Rightarrow> 'u hx \<Rightarrow> 'u http_exit" where
  "GOTO_ERROR e x = (x\<lparr>hp_errno := e\<rparr>, Error)"

definition ASSERT :: "bool \<Rightarrow> 'u hx \<Rightarrow> 'u http_exit \<Rightarrow> 'u http_exit" where
  "ASSERT b x r = (if b then r else (x, Crash))"

definition STRICT_CHECK :: "bool \<Rightarrow> 'u hx \<Rightarrow> 'u http_exit \<Rightarrow> 'u http_exit" where
  "STRICT_CHECK cond x r = (if cond then GOTO_ERROR HPE_STRICT x else r)"

definition COUNT_HEADER_SIZE ::
    "nat \<Rightarrow> 'u hx \<Rightarrow> ('u hx \<Rightarrow> 'u http_exit) \<Rightarrow> 'u http_exit" where
  "COUNT_HEADER_SIZE n x k =
     (let x' = x\<lparr>hp_nread := hp_nread x + of_nat n\<rparr>
      in if HTTP_MAX_HEADER_SIZE < hp_nread x' then GOTO_ERROR HPE_HEADER_OVERFLOW x'
         else k x')"

text \<open>\<open>CALLBACK_NOTIFY_(FOR, ER)\<close>: the callback and the error code it stands for, the value
  returned when it fails, and the rest of the case.\<close>

definition RUN_NOTIFY ::
    "'u http_cb option \<Rightarrow> http_errno \<Rightarrow> nat \<Rightarrow> 'u hx \<Rightarrow> ('u hx \<Rightarrow> 'u http_exit) \<Rightarrow> 'u http_exit" where
  "RUN_NOTIFY cb code er x k =
     ASSERT (hp_errno x = HPE_OK) x
       (case cb of
          None \<Rightarrow> k x
        | Some f \<Rightarrow>
            (case f (http_parser.truncate x) (hx_user x) of
               None \<Rightarrow> (x, Crash)
             | Some (rc, u) \<Rightarrow>
                 if rc \<noteq> 0 then (x\<lparr>hx_user := u, hp_errno := code\<rparr>, Return er)
                 else k (x\<lparr>hx_user := u\<rparr>)))"

abbreviation CALLBACK_NOTIFY where
  "CALLBACK_NOTIFY cb code x k \<equiv> RUN_NOTIFY cb code (hx_p x + 1) x k"

abbreviation CALLBACK_NOTIFY_NOADVANCE where
  "CALLBACK_NOTIFY_NOADVANCE cb code x k \<equiv> RUN_NOTIFY cb code (hx_p x) x k"

text \<open>\<open>CALLBACK_DATA_(FOR, LEN, ER)\<close>, with the end of the bytes instead of their number and the
  operation that clears the mark.  The bytes must lie in the buffer.\<close>

definition RUN_DATA ::
    "byte list \<Rightarrow> 'u http_data_cb option \<Rightarrow> http_errno \<Rightarrow> nat option \<Rightarrow> ('u hx \<Rightarrow> 'u hx) \<Rightarrow>
     nat \<Rightarrow> nat \<Rightarrow> 'u hx \<Rightarrow> ('u hx \<Rightarrow> 'u http_exit) \<Rightarrow> 'u http_exit" where
  "RUN_DATA data cb code mark clear e er x k =
     ASSERT (hp_errno x = HPE_OK) x
       (case mark of
          None \<Rightarrow> k x
        | Some m \<Rightarrow>
            ASSERT (m \<le> e \<and> e \<le> length data) x
              (case cb of
                 None \<Rightarrow> k (clear x)
               | Some f \<Rightarrow>
                   (case f (http_parser.truncate x) m (take (e - m) (drop m data)) (hx_user x) of
                      None \<Rightarrow> (x, Crash)
                    | Some (rc, u) \<Rightarrow>
                        if rc \<noteq> 0 then (x\<lparr>hx_user := u, hp_errno := code\<rparr>, Return er)
                        else k (clear (x\<lparr>hx_user := u\<rparr>)))))"

definition header_field_data where
  "header_field_data st data er x k =
     RUN_DATA data (on_header_field st) HPE_CB_header_field (hx_header_field x)
       (\<lambda>x. x\<lparr>hx_header_field := None\<rparr>) (hx_p x) er x k"

definition header_value_data where
  "header_value_data st data er x k =
     RUN_DATA data (on_header_value st) HPE_CB_header_value (hx_header_value x)
       (\<lambda>x. x\<lparr>hx_header_value := None\<rparr>) (hx_p x) er x k"

definition url_data where
  "url_data st data er x k =
     RUN_DATA data (on_url st) HPE_CB_url (hx_url x)
       (\<lambda>x. x\<lparr>hx_url := None\<rparr>) (hx_p x) er x k"

definition body_data where
  "body_data st data e er x k =
     RUN_DATA data (on_body st) HPE_CB_body (hx_body x)
       (\<lambda>x. x\<lparr>hx_body := None\<rparr>) e er x k"

definition status_data where
  "status_data st data er x k =
     RUN_DATA data (on_status st) HPE_CB_status (hx_status x)
       (\<lambda>x. x\<lparr>hx_status := None\<rparr>) (hx_p x) er x k"

text \<open>\<open>MARK(FOR)\<close>.\<close>

definition MARK :: "nat option \<Rightarrow> nat \<Rightarrow> nat option" where
  "MARK m p = (case m of None \<Rightarrow> Some p | Some i \<Rightarrow> Some i)"

text \<open>A C string constant read at an index: its terminating NUL is readable.\<close>

definition cstring :: "string \<Rightarrow> nat \<Rightarrow> byte" where
  "cstring s i = (if i < length s then cc (s ! i) else 0)"

subsection \<open>Start of a message, status line\<close>

definition do_dead :: "byte \<Rightarrow> 'u hx \<Rightarrow> 'u http_exit" where
  "do_dead ch x =
     (if ch = CR \<or> ch = LF then (x, Break) else GOTO_ERROR HPE_CLOSED_CONNECTION x)"

definition do_start_req_or_res ::
    "'u http_parser_settings \<Rightarrow> byte \<Rightarrow> 'u hx \<Rightarrow> 'u http_exit" where
  "do_start_req_or_res st ch x =
     (if ch = CR \<or> ch = LF then (x, Break)
      else let x = x\<lparr>hp_flags := {}, hp_content_length := ULLONG_MAX\<rparr> in
        if ch = cc CHR ''H'' then
          CALLBACK_NOTIFY (on_message_begin st) HPE_CB_message_begin
            (x\<lparr>hp_state := s_res_or_resp_H\<rparr>) (\<lambda>x. (x, Break))
        else (x\<lparr>hp_type := HTTP_REQUEST, hp_state := s_start_req\<rparr>, Reexecute))"

definition do_res_or_resp_H :: "byte \<Rightarrow> 'u hx \<Rightarrow> 'u http_exit" where
  "do_res_or_resp_H ch x =
     (if ch = cc CHR ''T'' then (x\<lparr>hp_type := HTTP_RESPONSE, hp_state := s_res_HT\<rparr>, Break)
      else if ch \<noteq> cc CHR ''E'' then GOTO_ERROR HPE_INVALID_CONSTANT x
      else (x\<lparr>hp_type := HTTP_REQUEST, hp_method := HTTP_HEAD, hp_index := 2,
              hp_state := s_req_method\<rparr>, Break))"

definition do_start_res :: "'u http_parser_settings \<Rightarrow> byte \<Rightarrow> 'u hx \<Rightarrow> 'u http_exit" where
  "do_start_res st ch x =
     (let x = x\<lparr>hp_flags := {}, hp_content_length := ULLONG_MAX\<rparr> in
      if ch = cc CHR ''H'' then
        CALLBACK_NOTIFY (on_message_begin st) HPE_CB_message_begin
          (x\<lparr>hp_state := s_res_H\<rparr>) (\<lambda>x. (x, Break))
      else if ch = CR \<or> ch = LF then
        CALLBACK_NOTIFY (on_message_begin st) HPE_CB_message_begin x (\<lambda>x. (x, Break))
      else GOTO_ERROR HPE_INVALID_CONSTANT x)"

text \<open>The states that wait for one fixed byte under \<open>STRICT_CHECK\<close>.\<close>

definition do_expect :: "byte \<Rightarrow> http_state \<Rightarrow> byte \<Rightarrow> 'u hx \<Rightarrow> 'u http_exit" where
  "do_expect c s ch x = STRICT_CHECK (ch \<noteq> c) x (x\<lparr>hp_state := s\<rparr>, Break)"

text \<open>The digits of the version and of the status code.\<close>

definition digit :: "byte \<Rightarrow> 'a::len word" where
  "digit ch = ucast (ch - cc CHR ''0'')"

definition do_res_first_http_major :: "byte \<Rightarrow> 'u hx \<Rightarrow> 'u http_exit" where
  "do_res_first_http_major ch x =
     (if ch < cc CHR ''0'' \<or> cc CHR ''9'' < ch then GOTO_ERROR HPE_INVALID_VERSION x
      else (x\<lparr>hp_major := digit ch, hp_state := s_res_http_major\<rparr>, Break))"

definition do_http_major :: "http_state \<Rightarrow> byte \<Rightarrow> 'u hx \<Rightarrow> 'u http_exit" where
  "do_http_major first_minor ch x =
     (if ch = cc CHR ''.'' then (x\<lparr>hp_state := first_minor\<rparr>, Break)
      else if \<not> IS_NUM ch then GOTO_ERROR HPE_INVALID_VERSION x
      else let x = x\<lparr>hp_major := hp_major x * 10 + digit ch\<rparr> in
        if 999 < hp_major x then GOTO_ERROR HPE_INVALID_VERSION x else (x, Break))"

definition do_first_http_minor :: "http_state \<Rightarrow> byte \<Rightarrow> 'u hx \<Rightarrow> 'u http_exit" where
  "do_first_http_minor minor ch x =
     (if \<not> IS_NUM ch then GOTO_ERROR HPE_INVALID_VERSION x
      else (x\<lparr>hp_minor := digit ch, hp_state := minor\<rparr>, Break))"

definition minor_digit :: "byte \<Rightarrow> 'u hx \<Rightarrow> 'u http_exit" where
  "minor_digit ch x =
     (if \<not> IS_NUM ch then GOTO_ERROR HPE_INVALID_VERSION x
      else let x = x\<lparr>hp_minor := hp_minor x * 10 + digit ch\<rparr> in
        if 999 < hp_minor x then GOTO_ERROR HPE_INVALID_VERSION x else (x, Break))"

definition do_res_http_minor :: "byte \<Rightarrow> 'u hx \<Rightarrow> 'u http_exit" where
  "do_res_http_minor ch x =
     (if ch = cc CHR '' '' then (x\<lparr>hp_state := s_res_first_status_code\<rparr>, Break)
      else minor_digit ch x)"

definition do_res_first_status_code :: "byte \<Rightarrow> 'u hx \<Rightarrow> 'u http_exit" where
  "do_res_first_status_code ch x =
     (if \<not> IS_NUM ch then
        (if ch = cc CHR '' '' then (x, Break) else GOTO_ERROR HPE_INVALID_STATUS x)
      else (x\<lparr>hp_status_code := digit ch, hp_state := s_res_status_code\<rparr>, Break))"

definition do_res_status_code :: "byte \<Rightarrow> 'u hx \<Rightarrow> 'u http_exit" where
  "do_res_status_code ch x =
     (if \<not> IS_NUM ch then
        (if ch = cc CHR '' '' then (x\<lparr>hp_state := s_res_status_start\<rparr>, Break)
         else if ch = CR then (x\<lparr>hp_state := s_res_line_almost_done\<rparr>, Break)
         else if ch = LF then (x\<lparr>hp_state := s_header_field_start\<rparr>, Break)
         else GOTO_ERROR HPE_INVALID_STATUS x)
      else let x = x\<lparr>hp_status_code := hp_status_code x * 10 + digit ch\<rparr> in
        if 999 < hp_status_code x then GOTO_ERROR HPE_INVALID_STATUS x else (x, Break))"

definition do_res_status_start :: "byte \<Rightarrow> 'u hx \<Rightarrow> 'u http_exit" where
  "do_res_status_start ch x =
     (if ch = CR then (x\<lparr>hp_state := s_res_line_almost_done\<rparr>, Break)
      else if ch = LF then (x\<lparr>hp_state := s_header_field_start\<rparr>, Break)
      else (x\<lparr>hx_status := MARK (hx_status x) (hx_p x), hp_state := s_res_status,
              hp_index := 0\<rparr>, Break))"

definition do_res_status ::
    "'u http_parser_settings \<Rightarrow> byte list \<Rightarrow> byte \<Rightarrow> 'u hx \<Rightarrow> 'u http_exit" where
  "do_res_status st data ch x =
     (if ch = CR then
        status_data st data (hx_p x + 1) (x\<lparr>hp_state := s_res_line_almost_done\<rparr>) (\<lambda>x. (x, Break))
      else if ch = LF then
        status_data st data (hx_p x + 1) (x\<lparr>hp_state := s_header_field_start\<rparr>) (\<lambda>x. (x, Break))
      else (x, Break))"

subsection \<open>Request line\<close>

definition first_method :: "byte \<Rightarrow> http_method option" where
  "first_method ch = map_of
     [(cc CHR ''A'', HTTP_ACL), (cc CHR ''B'', HTTP_BIND), (cc CHR ''C'', HTTP_CONNECT),
      (cc CHR ''D'', HTTP_DELETE), (cc CHR ''G'', HTTP_GET), (cc CHR ''H'', HTTP_HEAD),
      (cc CHR ''L'', HTTP_LOCK), (cc CHR ''M'', HTTP_MKCOL), (cc CHR ''N'', HTTP_NOTIFY),
      (cc CHR ''O'', HTTP_OPTIONS), (cc CHR ''P'', HTTP_POST), (cc CHR ''R'', HTTP_REPORT),
      (cc CHR ''S'', HTTP_SUBSCRIBE), (cc CHR ''T'', HTTP_TRACE), (cc CHR ''U'', HTTP_UNLOCK)] ch"

definition do_start_req :: "'u http_parser_settings \<Rightarrow> byte \<Rightarrow> 'u hx \<Rightarrow> 'u http_exit" where
  "do_start_req st ch x =
     (if ch = CR \<or> ch = LF then (x, Break)
      else let x = x\<lparr>hp_flags := {}, hp_content_length := ULLONG_MAX\<rparr> in
        if \<not> IS_ALPHA ch then GOTO_ERROR HPE_INVALID_METHOD x
        else let x = x\<lparr>hp_method := HTTP_DELETE, hp_index := 1\<rparr> in
          case first_method ch of
            None \<Rightarrow> GOTO_ERROR HPE_INVALID_METHOD x
          | Some m \<Rightarrow>
              CALLBACK_NOTIFY (on_message_begin st) HPE_CB_message_begin
                (x\<lparr>hp_method := m, hp_state := s_req_method\<rparr>) (\<lambda>x. (x, Break)))"

definition switch_method :: "http_method \<Rightarrow> nat \<Rightarrow> byte \<Rightarrow> http_method option" where
  "switch_method m i ch = map_of
     [((HTTP_POST, 1, cc CHR ''U''), HTTP_PUT),
      ((HTTP_POST, 1, cc CHR ''A''), HTTP_PATCH),
      ((HTTP_CONNECT, 1, cc CHR ''H''), HTTP_CHECKOUT),
      ((HTTP_CONNECT, 2, cc CHR ''P''), HTTP_COPY),
      ((HTTP_MKCOL, 1, cc CHR ''O''), HTTP_MOVE),
      ((HTTP_MKCOL, 1, cc CHR ''E''), HTTP_MERGE),
      ((HTTP_MKCOL, 2, cc CHR ''A''), HTTP_MKACTIVITY),
      ((HTTP_MKCOL, 3, cc CHR ''A''), HTTP_MKCALENDAR),
      ((HTTP_SUBSCRIBE, 1, cc CHR ''E''), HTTP_SEARCH),
      ((HTTP_REPORT, 2, cc CHR ''B''), HTTP_REBIND),
      ((HTTP_POST, 1, cc CHR ''R''), HTTP_PROPFIND),
      ((HTTP_PROPFIND, 4, cc CHR ''P''), HTTP_PROPPATCH),
      ((HTTP_PUT, 2, cc CHR ''R''), HTTP_PURGE),
      ((HTTP_LOCK, 1, cc CHR ''I''), HTTP_LINK),
      ((HTTP_UNLOCK, 2, cc CHR ''S''), HTTP_UNSUBSCRIBE),
      ((HTTP_UNLOCK, 2, cc CHR ''B''), HTTP_UNBIND),
      ((HTTP_UNLOCK, 3, cc CHR ''I''), HTTP_UNLINK)] (m, i, ch)"

definition do_req_method :: "byte \<Rightarrow> 'u hx \<Rightarrow> 'u http_exit" where
  "do_req_method ch x =
     (if ch = 0 then GOTO_ERROR HPE_INVALID_METHOD x
      else let matcher = method_string (hp_method x); i = unat (hp_index x); 
               next = (\<lambda>x. (x\<lparr>hp_index := hp_index x + 1\<rparr>, Break)) in
        ASSERT (i \<le> length matcher) x
          (if ch = cc CHR '' '' \<and> cstring matcher i = 0 then
             next (x\<lparr>hp_state := s_req_spaces_before_url\<rparr>)
           else if ch = cstring matcher i then next x
           else if IS_ALPHA ch then
             (case switch_method (hp_method x) i ch of
                Some m \<Rightarrow> next (x\<lparr>hp_method := m\<rparr>)
              | None \<Rightarrow> GOTO_ERROR HPE_INVALID_METHOD x)
           else if ch = cc CHR ''-'' \<and> i = 1 \<and> hp_method x = HTTP_MKCOL then
             next (x\<lparr>hp_method := HTTP_MSEARCH\<rparr>)
           else GOTO_ERROR HPE_INVALID_METHOD x))"

definition url_step :: "byte \<Rightarrow> 'u hx \<Rightarrow> 'u http_exit" where
  "url_step ch x =
     (let x = x\<lparr>hp_state := parse_url_char (hp_state x) ch\<rparr> in
      if hp_state x = s_dead then GOTO_ERROR HPE_INVALID_URL x else (x, Break))"

definition do_req_spaces_before_url :: "byte \<Rightarrow> 'u hx \<Rightarrow> 'u http_exit" where
  "do_req_spaces_before_url ch x =
     (if ch = cc CHR '' '' then (x, Break)
      else let x = x\<lparr>hx_url := MARK (hx_url x) (hx_p x)\<rparr> in
        url_step ch
          (if hp_method x = HTTP_CONNECT then x\<lparr>hp_state := s_req_server_start\<rparr> else x))"

definition do_req_schema :: "byte \<Rightarrow> 'u hx \<Rightarrow> 'u http_exit" where
  "do_req_schema ch x =
     (if ch = cc CHR '' '' \<or> ch = CR \<or> ch = LF then GOTO_ERROR HPE_INVALID_URL x
      else url_step ch x)"

definition do_req_url ::
    "'u http_parser_settings \<Rightarrow> byte list \<Rightarrow> byte \<Rightarrow> 'u hx \<Rightarrow> 'u http_exit" where
  "do_req_url st data ch x =
     (if ch = cc CHR '' '' then
        url_data st data (hx_p x + 1) (x\<lparr>hp_state := s_req_http_start\<rparr>) (\<lambda>x. (x, Break))
      else if ch = CR \<or> ch = LF then
        url_data st data (hx_p x + 1)
          (x\<lparr>hp_major := 0, hp_minor := 9,
             hp_state := if ch = CR then s_req_line_almost_done else s_header_field_start\<rparr>)
          (\<lambda>x. (x, Break))
      else url_step ch x)"

definition do_req_http_start :: "byte \<Rightarrow> 'u hx \<Rightarrow> 'u http_exit" where
  "do_req_http_start ch x =
     (if ch = cc CHR ''H'' then (x\<lparr>hp_state := s_req_http_H\<rparr>, Break)
      else if ch = cc CHR '' '' then (x, Break)
      else GOTO_ERROR HPE_INVALID_CONSTANT x)"

definition do_req_first_http_major :: "byte \<Rightarrow> 'u hx \<Rightarrow> 'u http_exit" where
  "do_req_first_http_major ch x =
     (if ch < cc CHR ''1'' \<or> cc CHR ''9'' < ch then GOTO_ERROR HPE_INVALID_VERSION x
      else (x\<lparr>hp_major := digit ch, hp_state := s_req_http_major\<rparr>, Break))"

definition do_req_http_minor :: "byte \<Rightarrow> 'u hx \<Rightarrow> 'u http_exit" where
  "do_req_http_minor ch x =
     (if ch = CR then (x\<lparr>hp_state := s_req_line_almost_done\<rparr>, Break)
      else if ch = LF then (x\<lparr>hp_state := s_header_field_start\<rparr>, Break)
      else minor_digit ch x)"

definition do_req_line_almost_done :: "byte \<Rightarrow> 'u hx \<Rightarrow> 'u http_exit" where
  "do_req_line_almost_done ch x =
     (if ch \<noteq> LF then GOTO_ERROR HPE_LF_EXPECTED x
      else (x\<lparr>hp_state := s_header_field_start\<rparr>, Break))"

subsection \<open>Header fields\<close>

definition header_of_token :: "byte \<Rightarrow> header_state" where
  "header_of_token c =
     (if c = cc CHR ''c'' then h_C
      else if c = cc CHR ''p'' then h_matching_proxy_connection
      else if c = cc CHR ''t'' then h_matching_transfer_encoding
      else if c = cc CHR ''u'' then h_matching_upgrade
      else h_general)"

definition do_header_field_start :: "byte \<Rightarrow> 'u hx \<Rightarrow> 'u http_exit" where
  "do_header_field_start ch x =
     (if ch = CR then (x\<lparr>hp_state := s_headers_almost_done\<rparr>, Break)
      else if ch = LF then (x\<lparr>hp_state := s_headers_almost_done\<rparr>, Reexecute)
      else let c = TOKEN ch in
        if c = 0 then GOTO_ERROR HPE_INVALID_HEADER_TOKEN x
        else (x\<lparr>hx_header_field := MARK (hx_header_field x) (hx_p x), hp_index := 0,
                hp_state := s_header_field, hp_header_state := header_of_token c\<rparr>, Break))"

text \<open>
  The comparison of a header name or value with a constant: the index has been advanced;
  \<open>i > sizeof(STR)-1 || c != STR[i]\<close> gives up, \<open>i == sizeof(STR)-2\<close> completes the match.
\<close>

definition match_constant ::
    "string \<Rightarrow> byte \<Rightarrow> nat \<Rightarrow> header_state \<Rightarrow> header_state \<Rightarrow> header_state \<Rightarrow> header_state" where
  "match_constant str c i miss hit stay =
     (if length str < i \<or> c \<noteq> cstring str i then miss
      else if i = length str - 1 then hit else stay)"

definition field_match :: "string \<Rightarrow> byte \<Rightarrow> header_state \<Rightarrow> 'u hx \<Rightarrow> 'u hx" where
  "field_match str c hit x =
     (let i = hp_index x + 1
      in x\<lparr>hp_index := i,
           hp_header_state := match_constant str c (unat i) h_general hit (hp_header_state x)\<rparr>)"

text \<open>One byte of a header name; \<open>None\<close> is the failed assertion of the \<open>default\<close> label.\<close>

definition header_field_char :: "byte \<Rightarrow> byte \<Rightarrow> 'u hx \<Rightarrow> 'u hx option" where
  "header_field_char ch c x =
     (case hp_header_state x of
        h_general \<Rightarrow> Some x
      | h_C \<Rightarrow> Some (x\<lparr>hp_index := hp_index x + 1,
                 hp_header_state := if c = cc CHR ''o'' then h_CO else h_general\<rparr>)
      | h_CO \<Rightarrow> Some (x\<lparr>hp_index := hp_index x + 1,
                 hp_header_state := if c = cc CHR ''n'' then h_CON else h_general\<rparr>)
      | h_CON \<Rightarrow> Some (x\<lparr>hp_index := hp_index x + 1,
                 hp_header_state := if c = cc CHR ''n'' then h_matching_connection
                   else if c = cc CHR ''t'' then h_matching_content_length else h_general\<rparr>)
      | h_matching_connection \<Rightarrow> Some (field_match ''connection'' c h_connection x)
      | h_matching_proxy_connection \<Rightarrow> Some (field_match ''proxy-connection'' c h_connection x)
      | h_matching_content_length \<Rightarrow> Some (field_match ''content-length'' c h_content_length x)
      | h_matching_transfer_encoding \<Rightarrow>
          Some (field_match ''transfer-encoding'' c h_transfer_encoding x)
      | h_matching_upgrade \<Rightarrow> Some (field_match ''upgrade'' c h_upgrade x)
      | h_connection \<Rightarrow> Some (if ch \<noteq> cc CHR '' '' then x\<lparr>hp_header_state := h_general\<rparr> else x)
      | h_content_length \<Rightarrow> Some (if ch \<noteq> cc CHR '' '' then x\<lparr>hp_header_state := h_general\<rparr> else x)
      | h_transfer_encoding \<Rightarrow>
          Some (if ch \<noteq> cc CHR '' '' then x\<lparr>hp_header_state := h_general\<rparr> else x)
      | h_upgrade \<Rightarrow> Some (if ch \<noteq> cc CHR '' '' then x\<lparr>hp_header_state := h_general\<rparr> else x)
      | _ \<Rightarrow> None)"

lemma header_field_char_p: "header_field_char ch c x = Some x' \<Longrightarrow> hx_p x' = hx_p x"
  by (auto simp: header_field_char_def field_match_def Let_def split: header_state.splits if_splits)

text \<open>The \<open>for\<close> loop of the case: it stops at the end of the buffer or at a byte that is no
  token.\<close>

function header_field_loop :: "byte list \<Rightarrow> 'u hx \<Rightarrow> 'u hx option" where
  "header_field_loop data x =
     (if length data \<le> hx_p x then Some x
      else let ch = data ! hx_p x; c = TOKEN ch in
        if c = 0 then Some x
        else case header_field_char ch c x of
          None \<Rightarrow> None
        | Some x' \<Rightarrow> header_field_loop data (x'\<lparr>hx_p := hx_p x' + 1\<rparr>))"
  by pat_completeness auto
termination
  by (relation "measure (\<lambda>(data, x). length data - hx_p x)") (auto dest: header_field_char_p)

declare header_field_loop.simps [simp del]

definition do_header_field ::
    "'u http_parser_settings \<Rightarrow> byte list \<Rightarrow> 'u hx \<Rightarrow> 'u http_exit" where
  "do_header_field st data x =
     (case header_field_loop data x of
        None \<Rightarrow> (x, Crash)
      | Some x' \<Rightarrow> COUNT_HEADER_SIZE (hx_p x' - hx_p x) x' (\<lambda>x.
          if hx_p x = length data then (x\<lparr>hx_p := hx_p x - 1\<rparr>, Break)
          else if data ! hx_p x = cc CHR '':'' then
            header_field_data st data (hx_p x + 1) (x\<lparr>hp_state := s_header_value_discard_ws\<rparr>)
              (\<lambda>x. (x, Break))
          else GOTO_ERROR HPE_INVALID_HEADER_TOKEN x))"

subsection \<open>Header values\<close>

text \<open>\<open>looking for 'Connection: ...'\<close>: the first byte of a connection token.\<close>

definition connection_token :: "byte \<Rightarrow> header_state \<Rightarrow> header_state" where
  "connection_token c other =
     (if c = cc CHR ''k'' then h_matching_connection_keep_alive
      else if c = cc CHR ''c'' then h_matching_connection_close
      else if c = cc CHR ''u'' then h_matching_connection_upgrade
      else other)"

definition do_header_value_start :: "byte \<Rightarrow> 'u hx \<Rightarrow> 'u http_exit" where
  "do_header_value_start ch x =
     (let x = x\<lparr>hx_header_value := MARK (hx_header_value x) (hx_p x),
                hp_state := s_header_value, hp_index := 0\<rparr>;
          c = LOWER ch
      in case hp_header_state x of
        h_upgrade \<Rightarrow>
          (x\<lparr>hp_flags := insert F_UPGRADE (hp_flags x), hp_header_state := h_general\<rparr>, Break)
      | h_transfer_encoding \<Rightarrow>
          (x\<lparr>hp_header_state := if cc CHR ''c'' = c then h_matching_transfer_encoding_chunked
                               else h_general\<rparr>, Break)
      | h_content_length \<Rightarrow>
          if \<not> IS_NUM ch then GOTO_ERROR HPE_INVALID_CONTENT_LENGTH x
          else if F_CONTENTLENGTH \<in> hp_flags x then GOTO_ERROR HPE_UNEXPECTED_CONTENT_LENGTH x
          else (x\<lparr>hp_flags := insert F_CONTENTLENGTH (hp_flags x),
                  hp_content_length := digit ch\<rparr>, Break)
      | h_connection \<Rightarrow>
          (x\<lparr>hp_header_state := connection_token c h_matching_connection_token\<rparr>, Break)
      | h_matching_connection_token_start \<Rightarrow> (x, Break)
      | _ \<Rightarrow> (x\<lparr>hp_header_state := h_general\<rparr>, Break))"

definition do_header_value_discard_ws :: "byte \<Rightarrow> 'u hx \<Rightarrow> 'u http_exit" where
  "do_header_value_discard_ws ch x =
     (if ch = cc CHR '' '' \<or> ch = 9 then (x, Break)
      else if ch = CR then (x\<lparr>hp_state := s_header_value_discard_ws_almost_done\<rparr>, Break)
      else if ch = LF then (x\<lparr>hp_state := s_header_value_discard_lws\<rparr>, Break)
      else do_header_value_start ch x)"

text \<open>\<open>memchr(p, c, n)\<close> on the buffer, as a position.\<close>

definition memchr :: "byte list \<Rightarrow> nat \<Rightarrow> byte \<Rightarrow> nat \<Rightarrow> nat option" where
  "memchr data p c n =
     (let k = length (takeWhile (\<lambda>b. b \<noteq> c) (take n (drop p data)))
      in if k < length (take n (drop p data)) then Some (p + k) else None)"

text \<open>The position that the fast path of \<open>h_general\<close> jumps to (before its \<open>--p\<close>).\<close>

definition general_skip :: "byte list \<Rightarrow> nat \<Rightarrow> nat" where
  "general_skip data p =
     (let limit = unat (min (of_nat (length data - p)) HTTP_MAX_HEADER_SIZE :: 64 word)
      in case (memchr data p CR limit, memchr data p LF limit) of
           (Some p_cr, Some p_lf) \<Rightarrow> if p_lf \<le> p_cr then p_lf else p_cr
         | (Some p_cr, None) \<Rightarrow> p_cr
         | (None, Some p_lf) \<Rightarrow> p_lf
         | (None, None) \<Rightarrow> length data)"

text \<open>One byte of a header value that is neither CR nor LF.  \<open>HV_Go\<close> continues after the
  byte, \<open>HV_Fail\<close> is the error \<open>HPE_INVALID_CONTENT_LENGTH\<close>.\<close>

datatype 'x hv_char = HV_Go header_state 'x | HV_Fail | HV_Assert

definition value_match ::
    "string \<Rightarrow> byte \<Rightarrow> header_state \<Rightarrow> header_state \<Rightarrow> header_state \<Rightarrow> 'u hx \<Rightarrow> 'u hx hv_char" where
  "value_match str c h miss hit x =
     (let i = hp_index x + 1
      in HV_Go (match_constant str c (unat i) miss hit h) (x\<lparr>hp_index := i\<rparr>))"

definition value_token_done ::
    "byte \<Rightarrow> header_state \<Rightarrow> http_flag \<Rightarrow> 'u hx \<Rightarrow> 'u hx hv_char" where
  "value_token_done ch h f x =
     (if ch = cc CHR '','' then
        HV_Go h_matching_connection_token_start
          (x\<lparr>hp_flags := insert f (hp_flags x), hp_index := 0\<rparr>)
      else if ch \<noteq> cc CHR '' '' then HV_Go h_matching_connection_token x
      else HV_Go h x)"

definition header_value_char ::
    "byte list \<Rightarrow> byte \<Rightarrow> header_state \<Rightarrow> 'u hx \<Rightarrow> 'u hx hv_char" where
  "header_value_char data ch h x =
     (let c = LOWER ch in case h of
        h_general \<Rightarrow> HV_Go h_general (x\<lparr>hx_p := general_skip data (hx_p x) - 1\<rparr>)
      | h_connection \<Rightarrow> HV_Assert
      | h_transfer_encoding \<Rightarrow> HV_Assert
      | h_content_length \<Rightarrow>
          if ch = cc CHR '' '' then HV_Go h x
          else if \<not> IS_NUM ch then HV_Fail
          else let t = hp_content_length x * 10 + digit ch in
            if (ULLONG_MAX - 10) div 10 < hp_content_length x then HV_Fail
            else HV_Go h (x\<lparr>hp_content_length := t\<rparr>)
      | h_matching_transfer_encoding_chunked \<Rightarrow>
          value_match ''chunked'' c h h_general h_transfer_encoding_chunked x
      | h_matching_connection_token_start \<Rightarrow>
          HV_Go (connection_token c
                  (if TOKEN c \<noteq> 0 then h_matching_connection_token
                   else if c = cc CHR '' '' \<or> c = 9 then h else h_general)) x
      | h_matching_connection_keep_alive \<Rightarrow>
          value_match ''keep-alive'' c h h_matching_connection_token h_connection_keep_alive x
      | h_matching_connection_close \<Rightarrow>
          value_match ''close'' c h h_matching_connection_token h_connection_close x
      | h_matching_connection_upgrade \<Rightarrow>
          value_match ''upgrade'' c h h_matching_connection_token h_connection_upgrade x
      | h_matching_connection_token \<Rightarrow>
          if ch = cc CHR '','' then HV_Go h_matching_connection_token_start (x\<lparr>hp_index := 0\<rparr>)
          else HV_Go h x
      | h_transfer_encoding_chunked \<Rightarrow>
          if ch \<noteq> cc CHR '' '' then HV_Go h_general x else HV_Go h x
      | h_connection_keep_alive \<Rightarrow> value_token_done ch h F_CONNECTION_KEEP_ALIVE x
      | h_connection_close \<Rightarrow> value_token_done ch h F_CONNECTION_CLOSE x
      | h_connection_upgrade \<Rightarrow> value_token_done ch h F_CONNECTION_UPGRADE x
      | _ \<Rightarrow> HV_Go h_general (x\<lparr>hp_state := s_header_value\<rparr>))"

lemma memchr_range:
  assumes "memchr data p c n = Some i"
  shows "p \<le> i" "i < length data" "data ! i = c"
proof -
  let ?ys = "take n (drop p data)"
  let ?k = "length (takeWhile (\<lambda>b. b \<noteq> c) ?ys)"
  have k: "?k < length ?ys" "i = p + ?k"
    using assms by (auto simp: memchr_def Let_def simp del: length_take length_drop split: if_splits)
  show "p \<le> i" "i < length data" using k by auto
  have "?ys ! ?k = data ! (p + ?k)" using k(1) by (cases "p \<le> length data") auto
  then show "data ! i = c" using k nth_length_takeWhile [of "\<lambda>b. b \<noteq> c" ?ys] by metis
qed

lemma general_skip_bounds:
  assumes "p < length data" "data ! p \<noteq> CR" "data ! p \<noteq> LF"
  shows "p < general_skip data p" "general_skip data p \<le> length data"
proof -
  have m: "p < i \<and> i < length data" if "memchr data p c n = Some i" "c = CR \<or> c = LF" for c n i
    using memchr_range [OF that(1)] that(2) assms by (metis le_neq_implies_less)
  show "p < general_skip data p" "general_skip data p \<le> length data"
    using assms(1)
    by (auto simp: general_skip_def Let_def split: option.split dest!: m intro: less_imp_le)
qed

lemma header_value_char_p:
  assumes "header_value_char data ch h x = HV_Go h' x'"
    and "hx_p x < length data" "data ! hx_p x = ch" "ch \<noteq> CR" "ch \<noteq> LF"
  shows "hx_p x \<le> hx_p x'" "hx_p x' < length data"
proof -
  have "hx_p x' = hx_p x \<or> hx_p x' = general_skip data (hx_p x) - 1"
    using assms(1)
    by (auto simp: header_value_char_def value_match_def value_token_done_def Let_def
             split: header_state.splits if_splits)
  then show "hx_p x \<le> hx_p x'" "hx_p x' < length data"
    using general_skip_bounds [of "hx_p x" data] assms by auto
qed

datatype hv_end = HV_End | HV_CR | HV_LF | HV_Error http_errno | HV_Crash

text \<open>The \<open>for\<close> loop of the case, with the local \<open>h_state\<close>.  It ends at the end of the
  buffer, at a CR or LF, or at an invalid byte.\<close>

function header_value_loop :: "byte list \<Rightarrow> header_state \<Rightarrow> 'u hx \<Rightarrow> 'u hx \<times> header_state \<times> hv_end" where
  "header_value_loop data h x =
     (if length data \<le> hx_p x then (x, h, HV_End)
      else let ch = data ! hx_p x in
        if ch = CR then (x, h, HV_CR)
        else if ch = LF then (x, h, HV_LF)
        else if \<not> hp_lenient x \<and> \<not> IS_HEADER_CHAR ch then (x, h, HV_Error HPE_INVALID_HEADER_TOKEN)
        else case header_value_char data ch h x of
          HV_Go h' x' \<Rightarrow> header_value_loop data h' (x'\<lparr>hx_p := hx_p x' + 1\<rparr>)
        | HV_Fail \<Rightarrow> (x\<lparr>hp_header_state := h\<rparr>, h, HV_Error HPE_INVALID_CONTENT_LENGTH)
        | HV_Assert \<Rightarrow> (x, h, HV_Crash))"
  by pat_completeness auto
termination
proof (relation "measure (\<lambda>(data, h, x). length data - hx_p x)", goal_cases)
  case (2 data h x ch h' x')
  have p: "hx_p x < length data" using 2(1) by (simp only: not_le)
  show ?case using p header_value_char_p [OF 2(6) p 2(2) [symmetric] 2(3) 2(4)] by simp
qed simp

declare header_value_loop.simps [simp del]

text \<open>After the loop: store \<open>h_state\<close>, count the bytes, step back from the end.\<close>

definition header_value_after :: "byte list \<Rightarrow> nat \<Rightarrow> header_state \<Rightarrow> 'u hx \<Rightarrow> 'u http_exit" where
  "header_value_after data start h x =
     COUNT_HEADER_SIZE (hx_p x - start) (x\<lparr>hp_header_state := h\<rparr>) (\<lambda>x.
       (if hx_p x = length data then x\<lparr>hx_p := hx_p x - 1\<rparr> else x, Break))"

definition do_header_value ::
    "'u http_parser_settings \<Rightarrow> byte list \<Rightarrow> 'u hx \<Rightarrow> 'u http_exit" where
  "do_header_value st data x =
     (let start = hx_p x in case header_value_loop data (hp_header_state x) x of
        (x, h, HV_CR) \<Rightarrow>
          header_value_data st data (hx_p x + 1)
            (x\<lparr>hp_state := s_header_almost_done, hp_header_state := h\<rparr>)
            (header_value_after data start h)
      | (x, h, HV_LF) \<Rightarrow>
          COUNT_HEADER_SIZE (hx_p x - start) (x\<lparr>hp_state := s_header_almost_done\<rparr>) (\<lambda>x.
            header_value_data st data (hx_p x) (x\<lparr>hp_header_state := h\<rparr>) (\<lambda>x. (x, Reexecute)))
      | (x, h, HV_Error e) \<Rightarrow> GOTO_ERROR e x
      | (x, h, HV_Crash) \<Rightarrow> (x, Crash)
      | (x, h, HV_End) \<Rightarrow> header_value_after data start h x)"

definition do_header_almost_done :: "byte \<Rightarrow> 'u hx \<Rightarrow> 'u http_exit" where
  "do_header_almost_done ch x =
     (if ch \<noteq> LF then GOTO_ERROR HPE_LF_EXPECTED x
      else (x\<lparr>hp_state := s_header_value_lws\<rparr>, Break))"

text \<open>The flag that a completed header value sets.\<close>

definition header_done_flags :: "header_state \<Rightarrow> http_flag set \<Rightarrow> http_flag set" where
  "header_done_flags h fs =
     (case h of
        h_connection_keep_alive \<Rightarrow> insert F_CONNECTION_KEEP_ALIVE fs
      | h_connection_close \<Rightarrow> insert F_CONNECTION_CLOSE fs
      | h_transfer_encoding_chunked \<Rightarrow> insert F_CHUNKED fs
      | h_connection_upgrade \<Rightarrow> insert F_CONNECTION_UPGRADE fs
      | _ \<Rightarrow> fs)"

definition do_header_value_lws :: "byte \<Rightarrow> 'u hx \<Rightarrow> 'u http_exit" where
  "do_header_value_lws ch x =
     (if ch = cc CHR '' '' \<or> ch = 9 then (x\<lparr>hp_state := s_header_value_start\<rparr>, Reexecute)
      else (x\<lparr>hp_flags := header_done_flags (hp_header_state x) (hp_flags x),
              hp_state := s_header_field_start\<rparr>, Reexecute))"

definition do_header_value_discard_lws ::
    "'u http_parser_settings \<Rightarrow> byte list \<Rightarrow> byte \<Rightarrow> 'u hx \<Rightarrow> 'u http_exit" where
  "do_header_value_discard_lws st data ch x =
     (if ch = cc CHR '' '' \<or> ch = 9 then (x\<lparr>hp_state := s_header_value_discard_ws\<rparr>, Break)
      else header_value_data st data (hx_p x)
        (x\<lparr>hp_flags := header_done_flags (hp_header_state x) (hp_flags x),
           hx_header_value := MARK (hx_header_value x) (hx_p x),
           hp_state := s_header_field_start\<rparr>)
        (\<lambda>x. (x, Reexecute)))"

subsection \<open>End of the headers\<close>

text \<open>\<open>on_headers_complete\<close> is called directly: 0 goes on, 1 skips the body, 2 also upgrades,
  anything else is an error.\<close>

definition headers_complete ::
    "'u http_parser_settings \<Rightarrow> 'u hx \<Rightarrow> ('u hx \<Rightarrow> 'u http_exit) \<Rightarrow> 'u http_exit" where
  "headers_complete st x k =
     (case on_headers_complete st of
        None \<Rightarrow> k x
      | Some f \<Rightarrow>
          (case f (http_parser.truncate x) (hx_user x) of
             None \<Rightarrow> (x, Crash)
           | Some (rc, u) \<Rightarrow>
               let x = x\<lparr>hx_user := u\<rparr> in
               if rc = 0 then k x
               else if rc = 2 then
                 k (x\<lparr>hp_upgrade := True, hp_flags := insert F_SKIPBODY (hp_flags x)\<rparr>)
               else if rc = 1 then k (x\<lparr>hp_flags := insert F_SKIPBODY (hp_flags x)\<rparr>)
               else (x\<lparr>hp_errno := HPE_CB_headers_complete\<rparr>, Return (hx_p x))))"

definition do_headers_almost_done ::
    "'u http_parser_settings \<Rightarrow> byte \<Rightarrow> 'u hx \<Rightarrow> 'u http_exit" where
  "do_headers_almost_done st ch x =
     STRICT_CHECK (ch \<noteq> LF) x
       (if F_TRAILING \<in> hp_flags x then
          CALLBACK_NOTIFY_NOADVANCE (on_chunk_complete st) HPE_CB_chunk_complete
            (x\<lparr>hp_state := s_message_done\<rparr>) (\<lambda>x. (x, Reexecute))
        else if F_CHUNKED \<in> hp_flags x \<and> F_CONTENTLENGTH \<in> hp_flags x then
          GOTO_ERROR HPE_UNEXPECTED_CONTENT_LENGTH x
        else
          headers_complete st
            (x\<lparr>hp_state := s_headers_done,
               hp_upgrade := {F_UPGRADE, F_CONNECTION_UPGRADE} \<subseteq> hp_flags x
                             \<or> hp_method x = HTTP_CONNECT\<rparr>)
            (\<lambda>x. if hp_errno x \<noteq> HPE_OK then (x, Return (hx_p x)) else (x, Reexecute)))"

definition message_complete ::
    "'u http_parser_settings \<Rightarrow> 'u hx \<Rightarrow> ('u hx \<Rightarrow> 'u http_exit) \<Rightarrow> 'u http_exit" where
  "message_complete st x k =
     CALLBACK_NOTIFY (on_message_complete st) HPE_CB_message_complete
       (x\<lparr>hp_state := NEW_MESSAGE (http_parser.truncate x)\<rparr>) k"

definition do_headers_done ::
    "'u http_parser_settings \<Rightarrow> byte \<Rightarrow> 'u hx \<Rightarrow> 'u http_exit" where
  "do_headers_done st ch x =
     STRICT_CHECK (ch \<noteq> LF) x
       (let x = x\<lparr>hp_nread := 0\<rparr>;
            hasBody = F_CHUNKED \<in> hp_flags x
                      \<or> 0 < hp_content_length x \<and> hp_content_length x \<noteq> ULLONG_MAX
        in if hp_upgrade x
              \<and> (hp_method x = HTTP_CONNECT \<or> F_SKIPBODY \<in> hp_flags x \<or> \<not> hasBody) then
             message_complete st x (\<lambda>x. (x, Return (hx_p x + 1)))
           else if F_SKIPBODY \<in> hp_flags x then message_complete st x (\<lambda>x. (x, Break))
           else if F_CHUNKED \<in> hp_flags x then (x\<lparr>hp_state := s_chunk_size_start\<rparr>, Break)
           else if hp_content_length x = 0 then message_complete st x (\<lambda>x. (x, Break))
           else if hp_content_length x \<noteq> ULLONG_MAX then (x\<lparr>hp_state := s_body_identity\<rparr>, Break)
           else if \<not> http_message_needs_eof (http_parser.truncate x) then
             message_complete st x (\<lambda>x. (x, Break))
           else (x\<lparr>hp_state := s_body_identity_eof\<rparr>, Break))"

subsection \<open>Bodies\<close>

text \<open>\<open>MIN(parser->content_length, (uint64_t) ((data + len) - p))\<close>.\<close>

definition to_read :: "byte list \<Rightarrow> 'u hx \<Rightarrow> nat" where
  "to_read data x = min (unat (hp_content_length x)) (length data - hx_p x)"

definition read_body :: "byte list \<Rightarrow> 'u hx \<Rightarrow> 'u hx" where
  "read_body data x =
     x\<lparr>hx_body := MARK (hx_body x) (hx_p x),
       hp_content_length := hp_content_length x - of_nat (to_read data x),
       hx_p := hx_p x + to_read data x - 1\<rparr>"

definition do_body_identity ::
    "'u http_parser_settings \<Rightarrow> byte list \<Rightarrow> 'u hx \<Rightarrow> 'u http_exit" where
  "do_body_identity st data x =
     ASSERT (hp_content_length x \<noteq> 0 \<and> hp_content_length x \<noteq> ULLONG_MAX) x
       (let x = read_body data x in
        if hp_content_length x = 0 then
          body_data st data (hx_p x + 1) (hx_p x) (x\<lparr>hp_state := s_message_done\<rparr>)
            (\<lambda>x. (x, Reexecute))
        else (x, Break))"

definition do_body_identity_eof :: "byte list \<Rightarrow> 'u hx \<Rightarrow> 'u http_exit" where
  "do_body_identity_eof data x =
     (x\<lparr>hx_body := MARK (hx_body x) (hx_p x), hx_p := length data - 1\<rparr>, Break)"

definition do_message_done :: "'u http_parser_settings \<Rightarrow> 'u hx \<Rightarrow> 'u http_exit" where
  "do_message_done st x =
     message_complete st x (\<lambda>x. if hp_upgrade x then (x, Return (hx_p x + 1)) else (x, Break))"

definition do_chunk_size_start :: "byte \<Rightarrow> 'u hx \<Rightarrow> 'u http_exit" where
  "do_chunk_size_start ch x =
     ASSERT (hp_nread x = 1) x
       (ASSERT (F_CHUNKED \<in> hp_flags x) x
         (if unhex ch = - 1 then GOTO_ERROR HPE_INVALID_CHUNK_SIZE x
          else (x\<lparr>hp_content_length := of_int (unhex ch), hp_state := s_chunk_size\<rparr>, Break)))"

definition do_chunk_size :: "byte \<Rightarrow> 'u hx \<Rightarrow> 'u http_exit" where
  "do_chunk_size ch x =
     ASSERT (F_CHUNKED \<in> hp_flags x) x
       (if ch = CR then (x\<lparr>hp_state := s_chunk_size_almost_done\<rparr>, Break)
        else if unhex ch = - 1 then
          (if ch = cc CHR '';'' \<or> ch = cc CHR '' '' then (x\<lparr>hp_state := s_chunk_parameters\<rparr>, Break)
           else GOTO_ERROR HPE_INVALID_CHUNK_SIZE x)
        else let t = hp_content_length x * 16 + of_int (unhex ch) in
          if (ULLONG_MAX - 16) div 16 < hp_content_length x then
            GOTO_ERROR HPE_INVALID_CONTENT_LENGTH x
          else (x\<lparr>hp_content_length := t\<rparr>, Break))"

definition do_chunk_parameters :: "byte \<Rightarrow> 'u hx \<Rightarrow> 'u http_exit" where
  "do_chunk_parameters ch x =
     ASSERT (F_CHUNKED \<in> hp_flags x) x
       (if ch = CR then (x\<lparr>hp_state := s_chunk_size_almost_done\<rparr>, Break) else (x, Break))"

definition do_chunk_size_almost_done ::
    "'u http_parser_settings \<Rightarrow> byte \<Rightarrow> 'u hx \<Rightarrow> 'u http_exit" where
  "do_chunk_size_almost_done st ch x =
     ASSERT (F_CHUNKED \<in> hp_flags x) x
       (STRICT_CHECK (ch \<noteq> LF) x
         (let x = x\<lparr>hp_nread := 0\<rparr> in
          CALLBACK_NOTIFY (on_chunk_header st) HPE_CB_chunk_header
            (if hp_content_length x = 0 then
               x\<lparr>hp_flags := insert F_TRAILING (hp_flags x), hp_state := s_header_field_start\<rparr>
             else x\<lparr>hp_state := s_chunk_data\<rparr>)
            (\<lambda>x. (x, Break))))"

definition do_chunk_data :: "byte list \<Rightarrow> 'u hx \<Rightarrow> 'u http_exit" where
  "do_chunk_data data x =
     ASSERT (F_CHUNKED \<in> hp_flags x) x
       (ASSERT (hp_content_length x \<noteq> 0 \<and> hp_content_length x \<noteq> ULLONG_MAX) x
         (let x = read_body data x in
          (if hp_content_length x = 0 then x\<lparr>hp_state := s_chunk_data_almost_done\<rparr> else x, Break)))"

definition do_chunk_data_almost_done ::
    "'u http_parser_settings \<Rightarrow> byte list \<Rightarrow> byte \<Rightarrow> 'u hx \<Rightarrow> 'u http_exit" where
  "do_chunk_data_almost_done st data ch x =
     ASSERT (F_CHUNKED \<in> hp_flags x) x
       (ASSERT (hp_content_length x = 0) x
         (STRICT_CHECK (ch \<noteq> CR) x
           (body_data st data (hx_p x) (hx_p x + 1) (x\<lparr>hp_state := s_chunk_data_done\<rparr>)
             (\<lambda>x. (x, Break)))))"

definition do_chunk_data_done ::
    "'u http_parser_settings \<Rightarrow> byte \<Rightarrow> 'u hx \<Rightarrow> 'u http_exit" where
  "do_chunk_data_done st ch x =
     ASSERT (F_CHUNKED \<in> hp_flags x) x
       (STRICT_CHECK (ch \<noteq> LF) x
         (CALLBACK_NOTIFY (on_chunk_complete st) HPE_CB_chunk_complete
           (x\<lparr>hp_nread := 0, hp_state := s_chunk_size_start\<rparr>) (\<lambda>x. (x, Break))))"

subsection \<open>The switch and the loop\<close>

definition http_step ::
    "'u http_parser_settings \<Rightarrow> byte list \<Rightarrow> 'u hx \<Rightarrow> 'u http_exit" where
  "http_step st data x =
     (let ch = data ! hx_p x in case hp_state x of
        s_dead \<Rightarrow> do_dead ch x
      | s_start_req_or_res \<Rightarrow> do_start_req_or_res st ch x
      | s_res_or_resp_H \<Rightarrow> do_res_or_resp_H ch x
      | s_start_res \<Rightarrow> do_start_res st ch x
      | s_res_H \<Rightarrow> do_expect (cc CHR ''T'') s_res_HT ch x
      | s_res_HT \<Rightarrow> do_expect (cc CHR ''T'') s_res_HTT ch x
      | s_res_HTT \<Rightarrow> do_expect (cc CHR ''P'') s_res_HTTP ch x
      | s_res_HTTP \<Rightarrow> do_expect (cc CHR ''/'') s_res_first_http_major ch x
      | s_res_first_http_major \<Rightarrow> do_res_first_http_major ch x
      | s_res_http_major \<Rightarrow> do_http_major s_res_first_http_minor ch x
      | s_res_first_http_minor \<Rightarrow> do_first_http_minor s_res_http_minor ch x
      | s_res_http_minor \<Rightarrow> do_res_http_minor ch x
      | s_res_first_status_code \<Rightarrow> do_res_first_status_code ch x
      | s_res_status_code \<Rightarrow> do_res_status_code ch x
      | s_res_status_start \<Rightarrow> do_res_status_start ch x
      | s_res_status \<Rightarrow> do_res_status st data ch x
      | s_res_line_almost_done \<Rightarrow> do_expect LF s_header_field_start ch x
      | s_start_req \<Rightarrow> do_start_req st ch x
      | s_req_method \<Rightarrow> do_req_method ch x
      | s_req_spaces_before_url \<Rightarrow> do_req_spaces_before_url ch x
      | s_req_schema \<Rightarrow> do_req_schema ch x
      | s_req_schema_slash \<Rightarrow> do_req_schema ch x
      | s_req_schema_slash_slash \<Rightarrow> do_req_schema ch x
      | s_req_server_start \<Rightarrow> do_req_schema ch x
      | s_req_server \<Rightarrow> do_req_url st data ch x
      | s_req_server_with_at \<Rightarrow> do_req_url st data ch x
      | s_req_path \<Rightarrow> do_req_url st data ch x
      | s_req_query_string_start \<Rightarrow> do_req_url st data ch x
      | s_req_query_string \<Rightarrow> do_req_url st data ch x
      | s_req_fragment_start \<Rightarrow> do_req_url st data ch x
      | s_req_fragment \<Rightarrow> do_req_url st data ch x
      | s_req_http_start \<Rightarrow> do_req_http_start ch x
      | s_req_http_H \<Rightarrow> do_expect (cc CHR ''T'') s_req_http_HT ch x
      | s_req_http_HT \<Rightarrow> do_expect (cc CHR ''T'') s_req_http_HTT ch x
      | s_req_http_HTT \<Rightarrow> do_expect (cc CHR ''P'') s_req_http_HTTP ch x
      | s_req_http_HTTP \<Rightarrow> do_expect (cc CHR ''/'') s_req_first_http_major ch x
      | s_req_first_http_major \<Rightarrow> do_req_first_http_major ch x
      | s_req_http_major \<Rightarrow> do_http_major s_req_first_http_minor ch x
      | s_req_first_http_minor \<Rightarrow> do_first_http_minor s_req_http_minor ch x
      | s_req_http_minor \<Rightarrow> do_req_http_minor ch x
      | s_req_line_almost_done \<Rightarrow> do_req_line_almost_done ch x
      | s_header_field_start \<Rightarrow> do_header_field_start ch x
      | s_header_field \<Rightarrow> do_header_field st data x
      | s_header_value_discard_ws \<Rightarrow> do_header_value_discard_ws ch x
      | s_header_value_discard_ws_almost_done \<Rightarrow> do_expect LF s_header_value_discard_lws ch x
      | s_header_value_discard_lws \<Rightarrow> do_header_value_discard_lws st data ch x
      | s_header_value_start \<Rightarrow> do_header_value_start ch x
      | s_header_value \<Rightarrow> do_header_value st data x
      | s_header_value_lws \<Rightarrow> do_header_value_lws ch x
      | s_header_almost_done \<Rightarrow> do_header_almost_done ch x
      | s_chunk_size_start \<Rightarrow> do_chunk_size_start ch x
      | s_chunk_size \<Rightarrow> do_chunk_size ch x
      | s_chunk_parameters \<Rightarrow> do_chunk_parameters ch x
      | s_chunk_size_almost_done \<Rightarrow> do_chunk_size_almost_done st ch x
      | s_headers_almost_done \<Rightarrow> do_headers_almost_done st ch x
      | s_headers_done \<Rightarrow> do_headers_done st ch x
      | s_chunk_data \<Rightarrow> do_chunk_data data x
      | s_chunk_data_almost_done \<Rightarrow> do_chunk_data_almost_done st data ch x
      | s_chunk_data_done \<Rightarrow> do_chunk_data_done st ch x
      | s_body_identity \<Rightarrow> do_body_identity st data x
      | s_body_identity_eof \<Rightarrow> do_body_identity_eof data x
      | s_message_done \<Rightarrow> do_message_done st x)"

text \<open>
  A case that breaks leaves \<open>p\<close> inside the buffer and not before its place; one that jumps
  to \<open>reexecute\<close> also lowers the rank of the state.  So the loop ends.
\<close>

definition reexecute_rank :: "http_state \<Rightarrow> nat" where
  "reexecute_rank s =
     (if s = s_header_value_lws \<or> s = s_header_value_discard_lws then 4
      else if s = s_header_field_start then 3
      else if s = s_headers_almost_done \<or> s = s_body_identity then 2
      else if s = s_headers_done \<or> s = s_message_done \<or> s = s_header_value
              \<or> s = s_start_req_or_res then 1
      else 0)"

definition progress :: "byte list \<Rightarrow> 'u hx \<Rightarrow> 'u http_exit \<Rightarrow> bool" where
  "progress data x r \<longleftrightarrow>
     (snd r = Break \<or> snd r = Reexecute \<longrightarrow>
        hx_p x \<le> hx_p (fst r) \<and> hx_p (fst r) < length data)
     \<and> (snd r = Reexecute \<longrightarrow>
        reexecute_rank (hp_state (fst r)) < reexecute_rank (hp_state x))"

lemma ASSERT_post:
  assumes "\<not> b \<Longrightarrow> Q (x, Crash)" "b \<Longrightarrow> Q r"
  shows "Q (ASSERT b x r)"
  using assms by (simp add: ASSERT_def)

lemma STRICT_CHECK_post:
  assumes "cond \<Longrightarrow> Q (GOTO_ERROR HPE_STRICT x)" "\<not> cond \<Longrightarrow> Q r"
  shows "Q (STRICT_CHECK cond x r)"
  using assms by (simp add: STRICT_CHECK_def)

lemma COUNT_HEADER_SIZE_post:
  assumes "Q (GOTO_ERROR HPE_HEADER_OVERFLOW (x\<lparr>hp_nread := hp_nread x + of_nat n\<rparr>))"
    and "hp_nread x + of_nat n \<le> HTTP_MAX_HEADER_SIZE \<Longrightarrow>
         Q (k (x\<lparr>hp_nread := hp_nread x + of_nat n\<rparr>))"
  shows "Q (COUNT_HEADER_SIZE n x k)"
  using assms by (simp add: COUNT_HEADER_SIZE_def Let_def not_less)

lemma RUN_NOTIFY_post:
  assumes "hp_errno x \<noteq> HPE_OK \<Longrightarrow> Q (x, Crash)"
    and "\<And>f. cb = Some f \<Longrightarrow> f (http_parser.truncate x) (hx_user x) = None \<Longrightarrow> Q (x, Crash)"
    and "\<And>u. Q (x\<lparr>hx_user := u, hp_errno := code\<rparr>, Return er)"
    and "\<And>u. Q (k (x\<lparr>hx_user := u\<rparr>))"
  shows "Q (RUN_NOTIFY cb code er x k)"
proof -
  have "Q (k x)" using assms(4) [of "hx_user x"] by simp
  then show ?thesis
    using assms(1,2,3,4)
    by (cases "hp_errno x = HPE_OK"; cases cb)
       (simp_all add: RUN_NOTIFY_def ASSERT_def split: option.split)
qed

lemma RUN_DATA_post:
  assumes "hp_errno x \<noteq> HPE_OK \<Longrightarrow> Q (x, Crash)"
    and "\<And>m. mark = Some m \<Longrightarrow> \<not> (m \<le> e \<and> e \<le> length data) \<Longrightarrow> Q (x, Crash)"
    and "\<And>f m. cb = Some f \<Longrightarrow>
           f (http_parser.truncate x) m (take (e - m) (drop m data)) (hx_user x) = None \<Longrightarrow>
           Q (x, Crash)"
    and "\<And>u. Q (x\<lparr>hx_user := u, hp_errno := code\<rparr>, Return er)"
    and "mark = None \<Longrightarrow> Q (k x)"
    and "\<And>u m. mark = Some m \<Longrightarrow> Q (k (clear (x\<lparr>hx_user := u\<rparr>)))"
  shows "Q (RUN_DATA data cb code mark clear e er x k)"
proof -
  show ?thesis
  proof (cases mark)
    case None
    then show ?thesis
      using assms(1,5) by (simp add: RUN_DATA_def ASSERT_def)
  next
    case (Some m)
    have "Q (k (clear x))" using assms(6) [OF Some, of "hx_user x"] by simp
    then show ?thesis
      using Some assms(1) assms(2) [OF Some] assms(3) [of _ m] assms(4) assms(6) [OF Some]
      by (cases cb) (simp_all add: RUN_DATA_def ASSERT_def split: option.split)
  qed
qed

lemma progress_exits [simp]:
  "progress data x (y, Break) \<longleftrightarrow> hx_p x \<le> hx_p y \<and> hx_p y < length data"
  "progress data x (y, Reexecute) \<longleftrightarrow> hx_p x \<le> hx_p y \<and> hx_p y < length data
     \<and> reexecute_rank (hp_state y) < reexecute_rank (hp_state x)"
  "progress data x (y, Return n)"
  "progress data x (y, Error)"
  "progress data x (y, Crash)"
  "progress data x (GOTO_ERROR e y)"
  by (auto simp: progress_def GOTO_ERROR_def)

lemmas progress_rules =
  ASSERT_post [where Q = "progress data x" for data x]
  STRICT_CHECK_post [where Q = "progress data x" for data x]
  COUNT_HEADER_SIZE_post [where Q = "progress data x" for data x]
  RUN_NOTIFY_post [where Q = "progress data x" for data x]
  RUN_DATA_post [where Q = "progress data x" for data x]

named_theorems http_progress

lemma start_progress [http_progress]:
  assumes "hx_p x < length data"
  shows "progress data x (do_dead ch x)"
    and "hp_state x = s_start_req_or_res \<Longrightarrow> progress data x (do_start_req_or_res st ch x)"
    and "progress data x (do_res_or_resp_H ch x)"
    and "progress data x (do_start_res st ch x)"
    and "progress data x (do_expect c s ch x)"
    and "progress data x (do_start_req st ch x)"
    and "progress data x (do_req_method ch x)"
  using assms
  by (auto simp: do_dead_def do_start_req_or_res_def do_res_or_resp_H_def do_start_res_def
        do_expect_def do_start_req_def do_req_method_def Let_def reexecute_rank_def
        intro!: progress_rules split: option.split)

lemma version_progress [http_progress]:
  assumes "hx_p x < length data"
  shows "progress data x (do_res_first_http_major ch x)"
    and "progress data x (do_http_major s ch x)"
    and "progress data x (do_first_http_minor s ch x)"
    and "progress data x (do_res_http_minor ch x)"
    and "progress data x (do_req_first_http_major ch x)"
    and "progress data x (do_req_http_minor ch x)"
    and "progress data x (do_req_line_almost_done ch x)"
    and "progress data x (do_req_http_start ch x)"
  using assms
  by (simp_all add: do_res_first_http_major_def do_http_major_def do_first_http_minor_def
        do_res_http_minor_def do_req_first_http_major_def do_req_http_minor_def minor_digit_def
        do_req_line_almost_done_def do_req_http_start_def Let_def)

lemma status_progress [http_progress]:
  assumes "hx_p x < length data"
  shows "progress data x (do_res_first_status_code ch x)"
    and "progress data x (do_res_status_code ch x)"
    and "progress data x (do_res_status_start ch x)"
    and "progress data x (do_res_status st data ch x)"
  using assms
  by (auto simp: do_res_first_status_code_def do_res_status_code_def do_res_status_start_def
        do_res_status_def status_data_def Let_def intro!: progress_rules)

lemma url_progress [http_progress]:
  assumes "hx_p x < length data"
  shows "progress data x (do_req_spaces_before_url ch x)"
    and "progress data x (do_req_schema ch x)"
    and "progress data x (do_req_url st data ch x)"
  using assms
  by (auto simp: do_req_spaces_before_url_def do_req_schema_def do_req_url_def url_step_def
        url_data_def Let_def intro!: progress_rules)

lemma header_field_loop_stop:
  "length data \<le> hx_p x \<or> TOKEN (data ! hx_p x) = 0 \<Longrightarrow> header_field_loop data x = Some x"
  by (subst header_field_loop.simps) (auto simp: Let_def)

lemma header_field_loop_go:
  "hx_p x < length data \<Longrightarrow> TOKEN (data ! hx_p x) \<noteq> 0 \<Longrightarrow>
   header_field_loop data x =
     (case header_field_char (data ! hx_p x) (TOKEN (data ! hx_p x)) x of
        None \<Rightarrow> None
      | Some x' \<Rightarrow> header_field_loop data (x'\<lparr>hx_p := hx_p x' + 1\<rparr>))"
  by (subst header_field_loop.simps) (simp add: Let_def)

lemma header_value_loop_end:
  "length data \<le> hx_p x \<Longrightarrow> header_value_loop data h x = (x, h, HV_End)"
  "hx_p x < length data \<Longrightarrow> data ! hx_p x = CR \<Longrightarrow> header_value_loop data h x = (x, h, HV_CR)"
  "hx_p x < length data \<Longrightarrow> data ! hx_p x = LF \<Longrightarrow> header_value_loop data h x = (x, h, HV_LF)"
  by (subst header_value_loop.simps, simp)+

lemma header_value_loop_invalid:
  "hx_p x < length data \<Longrightarrow> data ! hx_p x \<noteq> CR \<Longrightarrow> data ! hx_p x \<noteq> LF \<Longrightarrow>
   \<not> hp_lenient x \<Longrightarrow> \<not> IS_HEADER_CHAR (data ! hx_p x) \<Longrightarrow>
   header_value_loop data h x = (x, h, HV_Error HPE_INVALID_HEADER_TOKEN)"
  by (subst header_value_loop.simps) (simp add: Let_def)

lemma header_value_loop_go:
  "hx_p x < length data \<Longrightarrow> data ! hx_p x \<noteq> CR \<Longrightarrow> data ! hx_p x \<noteq> LF \<Longrightarrow>
   hp_lenient x \<or> IS_HEADER_CHAR (data ! hx_p x) \<Longrightarrow>
   header_value_loop data h x =
     (case header_value_char data (data ! hx_p x) h x of
        HV_Go h' x' \<Rightarrow> header_value_loop data h' (x'\<lparr>hx_p := hx_p x' + 1\<rparr>)
      | HV_Fail \<Rightarrow> (x\<lparr>hp_header_state := h\<rparr>, h, HV_Error HPE_INVALID_CONTENT_LENGTH)
      | HV_Assert \<Rightarrow> (x, h, HV_Crash))"
  by (subst header_value_loop.simps) (auto simp: Let_def)

text \<open>The bytes at which the loop over a header value stops.\<close>

lemma header_value_loop_cases [case_names eof cr lf invalid valid]:
  assumes "length data \<le> hx_p x \<Longrightarrow> P"
    and "hx_p x < length data \<Longrightarrow> data ! hx_p x = CR \<Longrightarrow> P"
    and "hx_p x < length data \<Longrightarrow> data ! hx_p x = LF \<Longrightarrow> P"
    and "hx_p x < length data \<Longrightarrow> data ! hx_p x \<noteq> CR \<Longrightarrow> data ! hx_p x \<noteq> LF \<Longrightarrow>
         \<not> hp_lenient x \<Longrightarrow> \<not> IS_HEADER_CHAR (data ! hx_p x) \<Longrightarrow> P"
    and "hx_p x < length data \<Longrightarrow> data ! hx_p x \<noteq> CR \<Longrightarrow> data ! hx_p x \<noteq> LF \<Longrightarrow>
         hp_lenient x \<or> IS_HEADER_CHAR (data ! hx_p x) \<Longrightarrow> P"
  shows P
  using assms by (meson not_le)

lemma header_field_loop_p:
  "header_field_loop data x = Some x' \<Longrightarrow> hx_p x \<le> length data \<Longrightarrow>
   hx_p x \<le> hx_p x' \<and> hx_p x' \<le> length data"
proof (induct data x rule: header_field_loop.induct)
  case (1 data x)
  show ?case
  proof (cases "length data \<le> hx_p x \<or> TOKEN (data ! hx_p x) = 0")
    case True
    then show ?thesis using 1(2,3) header_field_loop_stop [OF True] by simp
  next
    case False
    then obtain x1 where x1: "header_field_char (data ! hx_p x) (TOKEN (data ! hx_p x)) x = Some x1"
        and r: "header_field_loop data (x1\<lparr>hx_p := hx_p x1 + 1\<rparr>) = Some x'"
      using 1(2) header_field_loop_go [of x data] by (auto simp: not_le split: option.splits)
    show ?thesis
      using 1(1) [OF _ refl refl _ x1 r] False header_field_char_p [OF x1] by simp
  qed
qed

lemma header_value_loop_p:
  "header_value_loop data h x = (x', h', e) \<Longrightarrow> hx_p x \<le> length data \<Longrightarrow>
   hx_p x \<le> hx_p x' \<and> hx_p x' \<le> length data \<and> (e \<noteq> HV_End \<longrightarrow> hx_p x' < length data)"
proof (induct data h x rule: header_value_loop.induct)
  case (1 data h x)
  show ?case
  proof (cases rule: header_value_loop_cases [of data x])
    case valid
    note go = header_value_loop_go [OF valid]
    show ?thesis
    proof (cases "header_value_char data (data ! hx_p x) h x")
      case (HV_Go h1 x1)
      then have r: "header_value_loop data h1 (x1\<lparr>hx_p := hx_p x1 + 1\<rparr>) = (x', h', e)"
        using 1(2) go by simp
      have "hx_p x \<le> hx_p x1" "hx_p x1 < length data"
        using header_value_char_p [OF HV_Go valid(1) refl valid(2,3)] by auto
      then show ?thesis
        using 1(1) [OF _ refl valid(2,3) _ HV_Go r] valid by simp
    qed (use 1(2) go valid in auto)
  qed (use 1(2,3) in \<open>auto simp: header_value_loop_end header_value_loop_invalid\<close>)
qed

lemma header_progress [http_progress]:
  assumes "hx_p x < length data"
  shows "hp_state x = s_header_field_start \<Longrightarrow> progress data x (do_header_field_start ch x)"
    and "progress data x (do_header_value_start ch x)"
    and "progress data x (do_header_value_discard_ws ch x)"
    and "progress data x (do_header_almost_done ch x)"
    and "hp_state x = s_header_value_lws \<Longrightarrow> progress data x (do_header_value_lws ch x)"
    and "hp_state x = s_header_value_discard_lws \<Longrightarrow>
           progress data x (do_header_value_discard_lws st data ch x)"
  using assms
  by (auto simp: do_header_field_start_def do_header_value_start_def do_header_value_discard_ws_def
        do_header_almost_done_def do_header_value_lws_def do_header_value_discard_lws_def
        header_value_data_def reexecute_rank_def Let_def
        intro!: progress_rules split: header_state.split)

lemma header_field_progress [http_progress]:
  assumes "hx_p x < length data"
  shows "progress data x (do_header_field st data x)"
  using assms header_field_loop_p [of data x]
  by (auto simp: do_header_field_def header_field_data_def intro!: progress_rules split: option.split)

lemma header_value_after_progress:
  "hx_p x \<le> hx_p y \<Longrightarrow> hx_p y \<le> length data \<Longrightarrow> hx_p x < length data \<Longrightarrow>
   progress data x (header_value_after data start h y)"
  by (auto simp: header_value_after_def intro!: progress_rules)

lemma header_value_progress [http_progress]:
  assumes "hx_p x < length data" "hp_state x = s_header_value"
  shows "progress data x (do_header_value st data x)"
proof -
  obtain y h e where l: "header_value_loop data (hp_header_state x) x = (y, h, e)"
    by (cases "header_value_loop data (hp_header_state x) x")
  then show ?thesis
    using assms header_value_loop_p [OF l]
    by (cases e) (auto simp: do_header_value_def header_value_data_def Let_def reexecute_rank_def
                       intro!: progress_rules header_value_after_progress)
qed

lemma headers_complete_post:
  assumes "\<And>f. on_headers_complete st = Some f \<Longrightarrow>
             f (http_parser.truncate x) (hx_user x) = None \<Longrightarrow> Q (x, Crash)"
    and "\<And>u. Q (x\<lparr>hx_user := u, hp_errno := HPE_CB_headers_complete\<rparr>, Return (hx_p x))"
    and "\<And>u up fl. hp_flags x \<subseteq> fl \<Longrightarrow> fl \<subseteq> insert F_SKIPBODY (hp_flags x) \<Longrightarrow>
             Q (k (x\<lparr>hx_user := u, hp_upgrade := up, hp_flags := fl\<rparr>))"
  shows "Q (headers_complete st x k)"
proof -
  have "Q (k (x\<lparr>hx_user := u\<rparr>))" for u
    using assms(3) [where fl = "hp_flags x" and u = u and up = "hp_upgrade x"]
    by (simp add: subset_insertI)
  moreover have "Q (k (x\<lparr>hx_user := u, hp_flags := insert F_SKIPBODY (hp_flags x)\<rparr>))" for u
    using assms(3) [where fl = "insert F_SKIPBODY (hp_flags x)" and u = u and up = "hp_upgrade x"]
    by (simp add: subset_insertI)
  moreover have "Q (k (x\<lparr>hx_user := u, hp_upgrade := True,
      hp_flags := insert F_SKIPBODY (hp_flags x)\<rparr>))" for u
    using assms(3) [where fl = "insert F_SKIPBODY (hp_flags x)" and u = u and up = True] by (simp add: subset_insertI)
  moreover have "Q (k x)"
    using assms(3) [where fl = "hp_flags x" and u = "hx_user x" and up = "hp_upgrade x"]
    by (simp add: subset_insertI)
  ultimately show ?thesis
    using assms(1,2)
    by (cases "on_headers_complete st") (simp_all add: headers_complete_def Let_def split: option.split)
qed

lemma to_read_range:
  assumes "hx_p x < length data" "hp_content_length x \<noteq> 0"
  shows "0 < to_read data x" "hx_p x + to_read data x \<le> length data"
    "to_read data x \<le> unat (hp_content_length x)"
  using assms by (auto simp: to_read_def unsigned_eq_0_iff intro!: gr0I)

lemma end_progress [http_progress]:
  assumes "hx_p x < length data"
  shows "hp_state x = s_headers_almost_done \<Longrightarrow> progress data x (do_headers_almost_done st ch x)"
    and "progress data x (do_headers_done st ch x)"
    and "progress data x (do_message_done st x)"
  using assms
  by (auto simp: do_headers_almost_done_def do_headers_done_def message_complete_def
        do_message_done_def Let_def reexecute_rank_def
        intro!: progress_rules headers_complete_post [where Q = "progress data x"])

lemma body_progress [http_progress]:
  assumes "hx_p x < length data"
  shows "hp_state x = s_body_identity \<Longrightarrow> progress data x (do_body_identity st data x)"
    and "progress data x (do_body_identity_eof data x)"
    and "progress data x (do_chunk_data data x)"
  using assms to_read_range [of x data]
  by (auto simp: do_body_identity_def read_body_def do_body_identity_eof_def do_chunk_data_def
        body_data_def Let_def reexecute_rank_def intro!: progress_rules)

lemma chunk_progress [http_progress]:
  assumes "hx_p x < length data"
  shows "progress data x (do_chunk_data_almost_done st data ch x)"
    and "progress data x (do_chunk_data_done st ch x)"
    and "progress data x (do_chunk_size_start ch x)"
    and "progress data x (do_chunk_size ch x)"
    and "progress data x (do_chunk_parameters ch x)"
    and "progress data x (do_chunk_size_almost_done st ch x)"
  using assms
  by (auto simp: do_chunk_data_almost_done_def do_chunk_data_done_def do_chunk_size_start_def
        do_chunk_size_def do_chunk_parameters_def do_chunk_size_almost_done_def body_data_def
        Let_def intro!: progress_rules)

lemma http_step_progress:
  "hx_p x < length data \<Longrightarrow> progress data x (http_step st data x)"
  by (cases "hp_state x") (simp_all add: http_step_def Let_def http_progress)

text \<open>
  The loop.  The flag says whether control is at the head of the \<open>for\<close> loop, where the end
  of the buffer is tested and the byte counted, or at the label \<open>reexecute\<close>.
\<close>

function http_loop ::
    "'u http_parser_settings \<Rightarrow> byte list \<Rightarrow> bool \<Rightarrow> 'u hx \<Rightarrow> 'u http_exit" where
  "http_loop st data head x =
     (if head then
        (if hx_p x = length data then (x, Break)
         else if parsing_header (hp_state x) then
           let x' = x\<lparr>hp_nread := hp_nread x + 1\<rparr> in
           if HTTP_MAX_HEADER_SIZE < hp_nread x' then GOTO_ERROR HPE_HEADER_OVERFLOW x'
           else http_loop st data False x'
         else http_loop st data False x)
      else if length data \<le> hx_p x then (x, Crash)
      else case http_step st data x of
        (x', Break) \<Rightarrow> http_loop st data True (x'\<lparr>hx_p := hx_p x' + 1\<rparr>)
      | (x', Reexecute) \<Rightarrow> http_loop st data False x'
      | r \<Rightarrow> r)"
  by pat_completeness auto
termination
proof (relation "inv_image (less_than <*lex*> less_than)
    (\<lambda>(st, data, head, x). (length data - hx_p x, if head then 5 else reexecute_rank (hp_state x)))",
    goal_cases)
  case (4 st data head x x' f)
  then have "http_step st data x = (x', Break)" "hx_p x < length data" "\<not> head" by simp_all
  then show ?case using http_step_progress [of x data st] by simp linarith
next
  case (5 st data head x x' f)
  then have "http_step st data x = (x', Reexecute)" "hx_p x < length data" "\<not> head" by simp_all
  then show ?case using http_step_progress [of x data st] by simp linarith
qed (auto simp: reexecute_rank_def Let_def intro!: wf_inv_image wf_lex_prod)

declare http_loop.simps [simp del]

subsection \<open>Entry and exit\<close>

definition count_marks :: "'u hx \<Rightarrow> nat" where
  "count_marks x = length (filter (\<lambda>m. m \<noteq> None)
     [hx_header_field x, hx_header_value x, hx_url x, hx_body x, hx_status x])"

text \<open>After the loop: flush the data of the mark that is still set.\<close>

definition http_finish :: "'u http_parser_settings \<Rightarrow> byte list \<Rightarrow> 'u hx \<Rightarrow> 'u http_exit" where
  "http_finish st data x =
     ASSERT (count_marks x \<le> 1) x
       (header_field_data st data (hx_p x) x (\<lambda>x.
        header_value_data st data (hx_p x) x (\<lambda>x.
        url_data st data (hx_p x) x (\<lambda>x.
        body_data st data (hx_p x) (hx_p x) x (\<lambda>x.
        status_data st data (hx_p x) x (\<lambda>x. (x, Return (length data))))))))"

definition http_enter :: "http_parser \<Rightarrow> 'u \<Rightarrow> 'u hx" where
  "http_enter ps u = http_parser.extend ps
     \<lparr>hx_user = u, hx_p = 0,
      hx_header_field = (if hp_state ps = s_header_field then Some 0 else None),
      hx_header_value = (if hp_state ps = s_header_value then Some 0 else None),
      hx_url = (if hp_state ps \<in> set url_states then Some 0 else None),
      hx_body = None,
      hx_status = (if hp_state ps = s_res_status then Some 0 else None)\<rparr>"

text \<open>What the caller sees: bytes consumed, parser and client state; \<open>None\<close> after a crash.\<close>

definition http_leave :: "'u http_exit \<Rightarrow> (nat \<times> http_parser \<times> 'u) option" where
  "http_leave r = (case r of
      (x, Return n) \<Rightarrow> Some (n, http_parser.truncate x, hx_user x)
    | (x, Error) \<Rightarrow>
        Some (hx_p x, http_parser.truncate
          (if hp_errno x = HPE_OK then x\<lparr>hp_errno := HPE_UNKNOWN\<rparr> else x), hx_user x)
    | _ \<Rightarrow> None)"

definition http_parser_execute ::
    "'u http_parser_settings \<Rightarrow> http_parser \<Rightarrow> 'u \<Rightarrow> byte list \<Rightarrow> (nat \<times> http_parser \<times> 'u) option" where
  "http_parser_execute st ps u data =
     (if hp_errno ps \<noteq> HPE_OK then Some (0, ps, u)
      else if data = [] then
        (if hp_state ps = s_body_identity_eof then
           http_leave (CALLBACK_NOTIFY_NOADVANCE (on_message_complete st) HPE_CB_message_complete
             (http_enter ps u) (\<lambda>x. (x, Return 0)))
         else if hp_state ps \<in> {s_dead, s_start_req_or_res, s_start_res, s_start_req} then
           Some (0, ps, u)
         else Some (1, ps\<lparr>hp_errno := HPE_INVALID_EOF_STATE\<rparr>, u))
      else case http_loop st data True (http_enter ps u) of
        (x, Break) \<Rightarrow> http_leave (http_finish st data x)
      | r \<Rightarrow> http_leave r)"

end
