(* ===== verification/Http_Safe.thy ===== *)
theory Http_Safe
  imports Http_Parser
begin

text \<open>
  \<open>http_parser_execute\<close> never fails an assertion and never leaves its buffer.  The
  invariant relates the fields of the parser, the marks and the state; it is kept by every
  case of the switch, for every client whose callbacks satisfy the contract \<open>http_client\<close>.
\<close>

subsection \<open>The invariant\<close>

text \<open>What the fields must satisfy in a state.\<close>

definition field_header_states :: "header_state list" where
  "field_header_states =
     [h_general, h_C, h_CO, h_CON, h_matching_connection, h_matching_proxy_connection,
      h_matching_content_length, h_matching_transfer_encoding, h_matching_upgrade,
      h_connection, h_content_length, h_transfer_encoding, h_upgrade]"

definition chunk_states :: "http_state list" where
  "chunk_states =
     [s_chunk_size_start, s_chunk_size, s_chunk_parameters, s_chunk_size_almost_done,
      s_chunk_data, s_chunk_data_almost_done, s_chunk_data_done]"

definition parser_ok :: "'a http_parser_scheme \<Rightarrow> bool" where
  "parser_ok x \<longleftrightarrow>
     (hp_state x = s_req_method \<longrightarrow> unat (hp_index x) \<le> length (method_string (hp_method x)))
     \<and> (hp_state x = s_header_field \<longrightarrow> hp_header_state x \<in> set field_header_states)
     \<and> (hp_state x = s_header_value \<longrightarrow>
          hp_header_state x \<noteq> h_connection \<and> hp_header_state x \<noteq> h_transfer_encoding)
     \<and> (hp_state x = s_body_identity \<or> hp_state x = s_chunk_data \<longrightarrow>
          hp_content_length x \<noteq> 0 \<and> hp_content_length x \<noteq> ULLONG_MAX)
     \<and> (hp_state x = s_chunk_size \<or> hp_state x = s_chunk_parameters
          \<or> hp_state x = s_chunk_size_almost_done \<longrightarrow> hp_content_length x \<noteq> ULLONG_MAX)
     \<and> (hp_state x = s_chunk_data_almost_done \<longrightarrow> hp_content_length x = 0)
     \<and> (hp_state x \<in> set chunk_states \<longrightarrow> F_CHUNKED \<in> hp_flags x)
     \<and> hp_nread x \<le> HTTP_MAX_HEADER_SIZE"

text \<open>The states in which a mark may be set, and where it lies.  Body data is never empty.\<close>

definition body_states :: "http_state list" where
  "body_states = [s_body_identity, s_body_identity_eof, s_chunk_data, s_chunk_data_almost_done]"

definition marks_ok :: "'u hx \<Rightarrow> bool" where
  "marks_ok x \<longleftrightarrow>
     (\<forall>m. hx_header_field x = Some m \<longrightarrow> hp_state x = s_header_field \<and> m \<le> hx_p x)
     \<and> (hp_state x = s_header_field \<longrightarrow> hx_header_field x \<noteq> None)
     \<and> (\<forall>m. hx_header_value x = Some m \<longrightarrow> hp_state x = s_header_value \<and> m \<le> hx_p x)
     \<and> (\<forall>m. hx_url x = Some m \<longrightarrow> hp_state x \<in> set url_states \<and> m \<le> hx_p x)
     \<and> (\<forall>m. hx_body x = Some m \<longrightarrow> hp_state x \<in> set body_states \<and> m < hx_p x)
     \<and> (\<forall>m. hx_status x = Some m \<longrightarrow> hp_state x = s_res_status \<and> m \<le> hx_p x)"

text \<open>The states in which the value of a header may be delivered.\<close>

definition value_states :: "http_state list" where
  "value_states =
     [s_header_value_discard_ws, s_header_value_discard_ws_almost_done,
      s_header_value_discard_lws, s_header_value_start, s_header_value, s_header_almost_done,
      s_header_value_lws]"

definition client_ok ::
    "('u \<Rightarrow> bool) \<Rightarrow> ('u \<Rightarrow> bool) \<Rightarrow> 'a http_parser_scheme \<Rightarrow> 'u \<Rightarrow> bool" where
  "client_ok J V x u \<longleftrightarrow> J u \<and> (hp_state x \<in> set value_states \<longrightarrow> V u)"

text \<open>Between calls; after an error the parser does nothing more.\<close>

definition between_ok ::
    "('u \<Rightarrow> bool) \<Rightarrow> ('u \<Rightarrow> bool) \<Rightarrow> 'a http_parser_scheme \<Rightarrow> 'u \<Rightarrow> bool" where
  "between_ok J V x u \<longleftrightarrow>
     hp_errno x \<noteq> HPE_OK
     \<or> parser_ok x \<and> client_ok J V x u \<and> (hp_state x = s_chunk_size_start \<longrightarrow> hp_nread x = 0)"

text \<open>At the head of the loop and at the label \<open>reexecute\<close>.\<close>

definition head_ok :: "('u \<Rightarrow> bool) \<Rightarrow> ('u \<Rightarrow> bool) \<Rightarrow> byte list \<Rightarrow> 'u hx \<Rightarrow> bool" where
  "head_ok J V data x \<longleftrightarrow>
     hp_errno x = HPE_OK \<and> parser_ok x \<and> marks_ok x \<and> client_ok J V x (hx_user x)
     \<and> hx_p x \<le> length data \<and> (hp_state x = s_chunk_size_start \<longrightarrow> hp_nread x = 0)"

definition run_ok :: "('u \<Rightarrow> bool) \<Rightarrow> ('u \<Rightarrow> bool) \<Rightarrow> byte list \<Rightarrow> 'u hx \<Rightarrow> bool" where
  "run_ok J V data x \<longleftrightarrow>
     hp_errno x = HPE_OK \<and> parser_ok x \<and> marks_ok x \<and> client_ok J V x (hx_user x)
     \<and> hx_p x < length data \<and> (hp_state x = s_chunk_size_start \<longrightarrow> hp_nread x = 1)"

text \<open>How a case may end.  A \<open>return\<close> without an error happens only for an upgrade.\<close>

definition exit_ok :: "('u \<Rightarrow> bool) \<Rightarrow> ('u \<Rightarrow> bool) \<Rightarrow> byte list \<Rightarrow> 'u http_exit \<Rightarrow> bool" where
  "exit_ok J V data r \<longleftrightarrow>
     (case r of
        (x, Break) \<Rightarrow> head_ok J V data (x\<lparr>hx_p := hx_p x + 1\<rparr>)
      | (x, Reexecute) \<Rightarrow> run_ok J V data x
      | (x, Return n) \<Rightarrow> n \<le> length data \<and> between_ok J V x (hx_user x)
           \<and> (hp_errno x = HPE_OK \<longrightarrow> hp_upgrade x)
      | (x, Error) \<Rightarrow> hp_errno x \<noteq> HPE_OK \<and> hx_p x \<le> length data
      | (x, Crash) \<Rightarrow> False)"

lemma exit_ok_exits [simp]:
  "exit_ok J V data (x, Break) = head_ok J V data (x\<lparr>hx_p := hx_p x + 1\<rparr>)"
  "exit_ok J V data (x, Reexecute) = run_ok J V data x"
  "exit_ok J V data (x, Return n) \<longleftrightarrow> n \<le> length data \<and> between_ok J V x (hx_user x)
     \<and> (hp_errno x = HPE_OK \<longrightarrow> hp_upgrade x)"
  "exit_ok J V data (x, Error) \<longleftrightarrow> hp_errno x \<noteq> HPE_OK \<and> hx_p x \<le> length data"
  "exit_ok J V data (x, Crash) = False"
  "exit_ok J V data (GOTO_ERROR e x) \<longleftrightarrow> e \<noteq> HPE_OK \<and> hx_p x \<le> length data"
  by (simp_all add: exit_ok_def GOTO_ERROR_def)

text \<open>How the loop may end.\<close>

definition loop_ok :: "('u \<Rightarrow> bool) \<Rightarrow> ('u \<Rightarrow> bool) \<Rightarrow> byte list \<Rightarrow> 'u http_exit \<Rightarrow> bool" where
  "loop_ok J V data r \<longleftrightarrow>
     (case r of
        (x, Break) \<Rightarrow> head_ok J V data x \<and> hx_p x = length data
      | (x, Reexecute) \<Rightarrow> False
      | _ \<Rightarrow> exit_ok J V data r)"

lemma truncate_fields [simp]:
  "hp_errno (http_parser.truncate x) = hp_errno x" "hp_upgrade (http_parser.truncate x) = hp_upgrade x"
  "hp_state (http_parser.truncate x) = hp_state x"
  by (simp_all add: http_parser.truncate_def)

lemma between_truncate [simp]: "between_ok J V (http_parser.truncate x) u = between_ok J V x u"
  by (simp add: between_ok_def parser_ok_def client_ok_def http_parser.truncate_def)

text \<open>How the epilogue may end.\<close>

definition finish_ok :: "('u \<Rightarrow> bool) \<Rightarrow> ('u \<Rightarrow> bool) \<Rightarrow> byte list \<Rightarrow> 'u http_exit \<Rightarrow> bool" where
  "finish_ok J V data r \<longleftrightarrow>
     (case r of
        (x, Return n) \<Rightarrow> n = length data \<and> between_ok J V x (hx_user x)
      | _ \<Rightarrow> False)"

lemma loop_ok_exits [simp]:
  "loop_ok J V data (x, Break) \<longleftrightarrow> head_ok J V data x \<and> hx_p x = length data"
  "loop_ok J V data (x, Return n) = exit_ok J V data (x, Return n)"
  "loop_ok J V data (x, Error) = exit_ok J V data (x, Error)"
  "loop_ok J V data (x, Crash) = exit_ok J V data (x, Crash)"
  "loop_ok J V data (GOTO_ERROR e x) = exit_ok J V data (GOTO_ERROR e x)"
  by (simp_all add: loop_ok_def GOTO_ERROR_def)

lemma between_ok_error [simp]: "hp_errno x \<noteq> HPE_OK \<Longrightarrow> between_ok J V x u"
  by (simp add: between_ok_def)

text \<open>The callback macros, with the client property \<open>R\<close> that the callback establishes.\<close>

lemma RUN_NOTIFY_exit:
  assumes "hp_errno x = HPE_OK" and ret: "\<And>y. hp_errno y = code \<Longrightarrow> Q (y, Return er)"
    and "cb = None \<Longrightarrow> R (hx_user x)"
    and "\<And>f. cb = Some f \<Longrightarrow> \<exists>rc u. f (http_parser.truncate x) (hx_user x) = Some (rc, u) \<and> R u"
    and "\<And>u. R u \<Longrightarrow> Q (k (x\<lparr>hx_user := u\<rparr>))"
  shows "Q (RUN_NOTIFY cb code er x k)"
proof (cases cb)
  case None
  have "Q (k (x\<lparr>hx_user := hx_user x\<rparr>))" using assms(3,5) None by blast
  then show ?thesis using assms(1) None by (simp add: RUN_NOTIFY_def ASSERT_def)
next
  case (Some f)
  then obtain rc u where "f (http_parser.truncate x) (hx_user x) = Some (rc, u)" "R u"
    using assms(4) by blast
  then show ?thesis using assms(1,5) ret Some by (simp add: RUN_NOTIFY_def ASSERT_def)
qed

lemma RUN_DATA_exit:
  assumes "hp_errno x = HPE_OK" and ret: "\<And>y. hp_errno y = code \<Longrightarrow> Q (y, Return er)"
    and "mark = None \<Longrightarrow> Q (k x)"
    and "\<And>m. mark = Some m \<Longrightarrow> m \<le> e \<and> e \<le> length data"
    and "mark \<noteq> None \<Longrightarrow> cb = None \<Longrightarrow> R (hx_user x)"
    and "\<And>f m. cb = Some f \<Longrightarrow> mark = Some m \<Longrightarrow>
           \<exists>rc u. f (http_parser.truncate x) m (take (e - m) (drop m data)) (hx_user x) = Some (rc, u)
             \<and> R u"
    and "\<And>u. R u \<Longrightarrow> mark \<noteq> None \<Longrightarrow> Q (k (clear (x\<lparr>hx_user := u\<rparr>)))"
  shows "Q (RUN_DATA data cb code mark clear e er x k)"
proof (cases mark)
  case None
  then show ?thesis using assms(1,3) by (simp add: RUN_DATA_def ASSERT_def)
next
  case mark: (Some m)
  show ?thesis
  proof (cases cb)
    case None
    have "Q (k (clear (x\<lparr>hx_user := hx_user x\<rparr>)))" using assms(5,7) None mark by blast
    then show ?thesis using assms(1) assms(4) [OF mark] None mark by (simp add: RUN_DATA_def ASSERT_def)
  next
    case (Some f)
    then obtain rc u where
        "f (http_parser.truncate x) m (take (e - m) (drop m data)) (hx_user x) = Some (rc, u)" "R u"
      using assms(6) mark by blast
    then show ?thesis
      using assms(1) ret assms(4) [OF mark] assms(7) mark Some by (simp add: RUN_DATA_def ASSERT_def)
  qed
qed

lemma COUNT_HEADER_SIZE_exit:
  assumes "hx_p x \<le> length data"
    and "hp_nread x + of_nat n \<le> HTTP_MAX_HEADER_SIZE \<Longrightarrow>
         exit_ok J V data (k (x\<lparr>hp_nread := hp_nread x + of_nat n\<rparr>))"
  shows "exit_ok J V data (COUNT_HEADER_SIZE n x k)"
  by (rule COUNT_HEADER_SIZE_post) (use assms in simp_all)

lemma ASSERT_exit: "b \<Longrightarrow> exit_ok J V data r \<Longrightarrow> exit_ok J V data (ASSERT b x r)"
  by (simp add: ASSERT_def)

lemma STRICT_CHECK_exit:
  "hx_p x \<le> length data \<Longrightarrow> (\<not> c \<Longrightarrow> exit_ok J V data r) \<Longrightarrow>
   exit_ok J V data (STRICT_CHECK c x r)"
  by (simp add: STRICT_CHECK_def)

lemmas http_ok_basic = run_ok_def head_ok_def parser_ok_def marks_ok_def client_ok_def between_ok_def

lemmas http_ok_defs = http_ok_basic url_states_def body_states_def value_states_def chunk_states_def

text \<open>States that put no condition on the fields: a case may move to them freely.\<close>

definition plain_states :: "http_state list" where
  "plain_states =
     [s_res_H, s_res_HT, s_res_HTT, s_res_HTTP, s_res_first_http_major, s_res_http_major,
      s_res_first_http_minor, s_res_http_minor, s_res_first_status_code, s_res_status_code,
      s_res_status_start, s_res_line_almost_done, s_req_spaces_before_url, s_req_http_start,
      s_req_http_H, s_req_http_HT, s_req_http_HTT, s_req_http_HTTP, s_req_first_http_major,
      s_req_http_major, s_req_first_http_minor, s_req_http_minor, s_req_line_almost_done,
      s_header_field_start]"

definition bound_states :: "http_state list" where
  "bound_states =
     [s_req_method, s_header_field, s_header_value, s_body_identity, s_chunk_data, s_chunk_size,
      s_chunk_parameters, s_chunk_size_almost_done, s_chunk_data_almost_done, s_chunk_size_start,
      s_res_status] @ chunk_states @ body_states @ value_states"

lemma free_states:
  assumes "s \<in> set plain_states \<or> s \<in> set url_states"
  shows "s \<notin> set bound_states"
proof -
  have "list_all (\<lambda>s. s \<notin> set bound_states) (plain_states @ url_states)" by code_simp
  then show ?thesis using assms by (auto simp only: list_all_iff set_append)
qed

lemma plain_not_url: "s \<in> set plain_states \<Longrightarrow> s \<notin> set url_states"
proof -
  have "list_all (\<lambda>s. s \<notin> set url_states) plain_states" by code_simp
  then show "s \<in> set plain_states \<Longrightarrow> ?thesis" by (auto simp only: list_all_iff)
qed

lemma not_bound:
  assumes "s \<notin> set bound_states"
  shows "s \<noteq> s_req_method" "s \<noteq> s_header_field" "s \<noteq> s_header_value" "s \<noteq> s_body_identity"
    "s \<noteq> s_chunk_data" "s \<noteq> s_chunk_size" "s \<noteq> s_chunk_parameters" "s \<noteq> s_chunk_size_almost_done"
    "s \<noteq> s_chunk_data_almost_done" "s \<noteq> s_chunk_size_start" "s \<noteq> s_res_status"
    "s \<notin> set chunk_states" "s \<notin> set body_states" "s \<notin> set value_states"
  using assms by (auto simp: bound_states_def)

lemma plain_members:
  "s_res_first_http_minor \<in> set plain_states" "s_res_http_major \<in> set plain_states"
  "s_res_http_minor \<in> set plain_states" "s_res_first_status_code \<in> set plain_states"
  "s_res_status_code \<in> set plain_states" "s_res_status_start \<in> set plain_states"
  "s_res_line_almost_done \<in> set plain_states" "s_header_field_start \<in> set plain_states"
  "s_req_http_major \<in> set plain_states" "s_req_line_almost_done \<in> set plain_states"
  "s_req_http_H \<in> set plain_states" "s_req_http_start \<in> set plain_states"
  by (simp_all add: plain_states_def)

definition quiet :: "('u \<Rightarrow> bool) \<Rightarrow> 'u hx \<Rightarrow> bool" where
  "quiet J x \<longleftrightarrow>
     hp_errno x = HPE_OK \<and> hp_nread x \<le> HTTP_MAX_HEADER_SIZE
     \<and> hx_header_field x = None \<and> hx_header_value x = None \<and> hx_url x = None
     \<and> hx_body x = None \<and> hx_status x = None \<and> J (hx_user x)"

lemma quiet_updates [simp]:
  "quiet J (x\<lparr>hp_state := s\<rparr>) = quiet J x"
  "quiet J (x\<lparr>hp_major := n\<rparr>) = quiet J x"
  "quiet J (x\<lparr>hp_minor := n\<rparr>) = quiet J x"
  "quiet J (x\<lparr>hp_status_code := n\<rparr>) = quiet J x"
  "quiet J (x\<lparr>hx_p := i\<rparr>) = quiet J x"
  by (simp_all add: quiet_def)

lemma switch_method_length:
  "switch_method m i ch = Some m' \<Longrightarrow> i < length (method_string m')"
  by (auto simp: switch_method_def split: if_splits)

lemma first_method_length: "first_method ch = Some m \<Longrightarrow> 1 \<le> length (method_string m)"
  by (auto simp: first_method_def split: if_splits)

lemma unat_Suc7: "unat i \<le> n \<Longrightarrow> n < 127 \<Longrightarrow> unat (i + 1 :: 7 word) = Suc (unat i)"
  by (simp add: unat_word_ariths)

lemma method_string_length: "length (method_string m) < 127"
  by (cases m) simp_all

lemma url_step_states: "parse_url_char s ch \<noteq> s_dead \<Longrightarrow> parse_url_char s ch \<in> set url_states"
  using parse_url_char_states [of s ch] by auto

lemma NEW_MESSAGE_states: "NEW_MESSAGE ps \<in> {s_start_req, s_start_res, s_dead}"
  by (simp add: NEW_MESSAGE_def start_state_def)

lemma MARK_eq_Some [simp]: "MARK m p = Some i \<longleftrightarrow> (if m = None then i = p else m = Some i)"
  by (auto simp: MARK_def split: option.split)

lemma unmarked [simp]:
  "hx_url x = None \<Longrightarrow> x\<lparr>hx_url := None\<rparr> = x"
  "hx_status x = None \<Longrightarrow> x\<lparr>hx_status := None\<rparr> = x"
  "hx_body x = None \<Longrightarrow> x\<lparr>hx_body := None\<rparr> = x"
  by (cases x; simp)+

lemma MARK_not_None [simp]: "MARK m p \<noteq> None"
  by (simp add: MARK_def split: option.split)

text \<open>The loops over a header name and a header value change only these fields.\<close>

definition header_frame :: "'u hx \<Rightarrow> 'u hx" where
  "header_frame x = x\<lparr>hp_index := 0, hp_flags := {}, hp_content_length := 0,
     hp_header_state := h_general, hx_p := 0\<rparr>"

lemma header_frame_fields:
  assumes "header_frame y = header_frame x"
  shows "hp_errno y = hp_errno x" "hp_state y = hp_state x" "hp_nread y = hp_nread x"
    "hx_user y = hx_user x" "hx_header_field y = hx_header_field x"
    "hx_header_value y = hx_header_value x" "hx_url y = hx_url x" "hx_body y = hx_body x"
    "hx_status y = hx_status x"
  using assms
  by (auto simp: header_frame_def dest: arg_cong [where f = hp_errno] arg_cong [where f = hp_state]
    arg_cong [where f = hp_nread] arg_cong [where f = hx_user] arg_cong [where f = hx_header_field]
    arg_cong [where f = hx_header_value] arg_cong [where f = hx_url] arg_cong [where f = hx_body]
    arg_cong [where f = hx_status])

lemma header_frame_updates [simp]:
  "header_frame (x\<lparr>hx_p := p\<rparr>) = header_frame x"
  "header_frame (x\<lparr>hp_index := i\<rparr>) = header_frame x"
  "header_frame (x\<lparr>hp_flags := fs\<rparr>) = header_frame x"
  "header_frame (x\<lparr>hp_content_length := n\<rparr>) = header_frame x"
  "header_frame (x\<lparr>hp_header_state := h\<rparr>) = header_frame x"
  by (simp_all add: header_frame_def)

lemma header_field_char_ok:
  assumes "hp_header_state x \<in> set field_header_states"
  obtains y where "header_field_char ch c x = Some y" "header_frame y = header_frame x"
    "hp_header_state y \<in> set field_header_states"
  using assms
  by (cases "hp_header_state x")
     (auto simp: header_field_char_def field_match_def match_constant_def field_header_states_def
        Let_def split: if_splits)

lemma header_field_loop_ok:
  "hp_header_state x \<in> set field_header_states \<Longrightarrow>
   \<exists>y. header_field_loop data x = Some y \<and> header_frame y = header_frame x
     \<and> hp_header_state y \<in> set field_header_states"
proof (induct data x rule: header_field_loop.induct)
  case (1 data x)
  show ?case
  proof (cases "length data \<le> hx_p x \<or> TOKEN (data ! hx_p x) = 0")
    case True
    then show ?thesis using 1(2) header_field_loop_stop [OF True] by simp
  next
    case False
    obtain y where y: "header_field_char (data ! hx_p x) (TOKEN (data ! hx_p x)) x = Some y"
        "header_frame y = header_frame x" "hp_header_state y \<in> set field_header_states"
      using header_field_char_ok [OF 1(2)] by blast
    show ?thesis
      using 1(1) [OF _ refl refl _ y(1)] False y header_field_loop_go [of x data]
      by (simp add: not_le)
  qed
qed

lemma header_value_char_ok:
  assumes "h \<noteq> h_connection" "h \<noteq> h_transfer_encoding"
  shows "header_value_char data ch h x \<noteq> HV_Assert"
    and "header_value_char data ch h x = HV_Go h' y \<Longrightarrow> hp_state x = s_header_value \<Longrightarrow>
      h' \<noteq> h_connection \<and> h' \<noteq> h_transfer_encoding \<and> header_frame y = header_frame x"
  using assms
  by (auto simp: header_value_char_def value_match_def match_constant_def value_token_done_def
        connection_token_def header_frame_def Let_def split: header_state.splits if_splits)

lemma header_value_loop_ok:
  "h \<noteq> h_connection \<Longrightarrow> h \<noteq> h_transfer_encoding \<Longrightarrow> hp_state x = s_header_value \<Longrightarrow>
   header_value_loop data h x = (y, h', e) \<Longrightarrow>
   e \<noteq> HV_Crash \<and> e \<noteq> HV_Error HPE_OK \<and> h' \<noteq> h_connection \<and> h' \<noteq> h_transfer_encoding
     \<and> header_frame y = header_frame x"
proof (induct data h x rule: header_value_loop.induct)
  case (1 data h x)
  show ?case
  proof (cases rule: header_value_loop_cases [of data x])
    case valid
    note go = header_value_loop_go [OF valid, of h]
    show ?thesis
    proof (cases "header_value_char data (data ! hx_p x) h x")
      case (HV_Go h1 x1)
      have x1: "h1 \<noteq> h_connection" "h1 \<noteq> h_transfer_encoding" "header_frame x1 = header_frame x"
        using header_value_char_ok(2) [OF 1(2,3) HV_Go 1(4)] by auto
      have r: "header_value_loop data h1 (x1\<lparr>hx_p := hx_p x1 + 1\<rparr>) = (y, h', e)"
        using 1(5) go HV_Go by simp
      show ?thesis
        using 1(1) [OF _ refl valid(2,3) _ HV_Go x1(1,2) _ r] valid header_frame_fields(2) [OF x1(3)]
          1(4) x1(3) by auto
    qed (use 1(2-5) go header_value_char_ok(1) [OF 1(2,3)] in auto)
  qed (use 1(2-5) in \<open>auto simp: header_value_loop_end header_value_loop_invalid\<close>)
qed

text \<open>Arithmetic of the body lengths.\<close>

lemma unat_ULLONG_MAX: "unat ULLONG_MAX = 18446744073709551615"
  by (simp add: ULLONG_MAX_def unsigned_minus_1_eq_mask mask_eq_exp_minus_1)

lemma content_left:
  assumes "n \<le> unat (c :: 64 word)"
  shows "unat (c - of_nat n) = unat c - n"
proof -
  have n: "unat (of_nat n :: 64 word) = n"
    using assms unsigned_less [of c, where ?'a = nat] by (simp add: unat_of_nat)
  then have "(of_nat n :: 64 word) \<le> c" using assms by (simp add: word_le_nat_alt)
  then show ?thesis by (simp add: unat_sub n)
qed

lemma content_left_ok:
  assumes "n \<le> unat (c :: 64 word)" "0 < n"
  shows "c - of_nat n \<noteq> ULLONG_MAX"
proof
  assume "c - of_nat n = ULLONG_MAX"
  then have "unat c - n = unat ULLONG_MAX" using content_left [OF assms(1)] by simp
  moreover have "unat c \<le> unat ULLONG_MAX"
    using word_n1_ge [of c] by (simp add: ULLONG_MAX_def word_le_nat_alt)
  ultimately show False using assms by simp
qed

lemma unhex_range: "unhex ch \<noteq> -1 \<Longrightarrow> 0 \<le> unhex ch \<and> unhex ch \<le> 15"
proof -
  have t: "list_all (\<lambda>v. v = -1 \<or> 0 \<le> v \<and> v \<le> 15) unhex_table" "length unhex_table = 128"
    by (simp_all add: unhex_table_def)
  have "ch < 128 \<Longrightarrow> unhex_table ! unat ch \<in> set unhex_table"
    by (simp add: t(2) word_less_nat_alt)
  then show "unhex ch \<noteq> -1 \<Longrightarrow> ?thesis" using t(1) by (auto simp: unhex_def list_all_iff)
qed

lemma chunk_size_ok:
  assumes "\<not> (ULLONG_MAX - 16) div 16 < c" "unhex ch \<noteq> -1"
  shows "c * 16 + of_int (unhex ch) \<noteq> ULLONG_MAX"
proof -
  have lim: "unat ((ULLONG_MAX - 16) div 16) = 1152921504606846974"
    by (simp add: ULLONG_MAX_def)
  obtain h where h: "unhex ch = int h" "h \<le> 15"
    using unhex_range [OF assms(2)] by (metis nat_0_le nat_le_iff of_nat_numeral)
  have "unat c \<le> 1152921504606846974" using assms(1) lim by (simp add: word_less_nat_alt)
  then have "unat (c * 16 + of_int (unhex ch)) = unat c * 16 + h"
    using h by (simp add: unat_word_ariths unat_of_nat)
  moreover have "unat c * 16 + h \<noteq> unat ULLONG_MAX"
    using \<open>unat c \<le> _\<close> h(2) by (simp add: unat_ULLONG_MAX)
  ultimately show ?thesis by metis
qed

lemma chunk_digit_ok: "unhex ch \<noteq> -1 \<Longrightarrow> of_int (unhex ch) \<noteq> ULLONG_MAX"
  using chunk_size_ok [of 0 ch] by (simp add: ULLONG_MAX_def)

subsection \<open>The contract of the callbacks\<close>

text \<open>
  \<open>J\<close> holds of the client at all times and \<open>V\<close> from a header field to the end of its value:
  a value is delivered only after a field.  Body data is a non-empty part of the buffer.
\<close>

locale http_client =
  fixes st :: "'u http_parser_settings" and data :: "byte list" and J V :: "'u \<Rightarrow> bool"
  assumes V_J: "V u \<Longrightarrow> J u"
    and begin_ok: "on_message_begin st = Some f1 \<Longrightarrow> J u \<Longrightarrow> \<exists>rc u'. f1 ps u = Some (rc, u') \<and> J u'"
    and url_ok: "on_url st = Some f \<Longrightarrow> J u \<Longrightarrow> \<exists>rc u'. f ps i bs u = Some (rc, u') \<and> J u'"
    and status_ok: "on_status st = Some f \<Longrightarrow> J u \<Longrightarrow> \<exists>rc u'. f ps i bs u = Some (rc, u') \<and> J u'"
    and field_ok: "on_header_field st = Some f \<Longrightarrow> J u \<Longrightarrow>
          \<exists>rc u'. f ps i bs u = Some (rc, u') \<and> V u'"
    and no_field: "on_header_field st = None \<Longrightarrow> J u \<Longrightarrow> V u"
    and value_ok: "on_header_value st = Some f \<Longrightarrow> V u \<Longrightarrow>
          \<exists>rc u'. f ps i bs u = Some (rc, u') \<and> V u'"
    and headers_ok: "on_headers_complete st = Some f1 \<Longrightarrow> J u \<Longrightarrow>
          \<exists>rc u'. f1 ps u = Some (rc, u') \<and> J u'"
    and body_ok: "on_body st = Some f \<Longrightarrow> J u \<Longrightarrow> bs \<noteq> [] \<Longrightarrow>
          i + length bs \<le> length data \<Longrightarrow> bs = take (length bs) (drop i data) \<Longrightarrow>
          \<exists>rc u'. f ps i bs u = Some (rc, u') \<and> J u'"
    and complete_ok: "on_message_complete st = Some f1 \<Longrightarrow> J u \<Longrightarrow>
          \<exists>rc u'. f1 ps u = Some (rc, u') \<and> J u'"
    and chunk_header_ok: "on_chunk_header st = Some f1 \<Longrightarrow> J u \<Longrightarrow>
          \<exists>rc u'. f1 ps u = Some (rc, u') \<and> J u'"
    and chunk_complete_ok: "on_chunk_complete st = Some f1 \<Longrightarrow> J u \<Longrightarrow>
          \<exists>rc u'. f1 ps u = Some (rc, u') \<and> J u'"

context http_client
begin

abbreviation "run \<equiv> run_ok J V data"
abbreviation "exits \<equiv> exit_ok J V data"

text \<open>In a plain state no mark is set.\<close>

lemma quiet_run:
  assumes "run x" "hp_state x \<in> set plain_states"
  shows "quiet J x \<and> hx_p x < length data"
  using assms not_bound [OF free_states, of "hp_state x"] plain_not_url
  by (simp add: http_ok_basic quiet_def)

lemma quiet_head:
  assumes "quiet J x" "hp_state x \<in> set plain_states" "hx_p x \<le> length data"
  shows "head_ok J V data x"
  using assms not_bound [OF free_states, of "hp_state x"] by (simp add: http_ok_basic quiet_def)

lemma url_run:
  assumes "run x" "hp_state x \<in> set url_states"
  shows "quiet J (x\<lparr>hx_url := None\<rparr>)" "hx_p x < length data" "hx_url x = Some m \<Longrightarrow> m \<le> hx_p x"
  using assms not_bound [OF free_states, of "hp_state x"] by (simp_all add: http_ok_basic quiet_def)

lemma url_head:
  assumes "quiet J (x\<lparr>hx_url := None\<rparr>)" "hp_state x \<in> set url_states" "hx_p x \<le> length data"
    and "\<And>m. hx_url x = Some m \<Longrightarrow> m \<le> hx_p x"
  shows "head_ok J V data x"
  using assms not_bound [OF free_states, of "hp_state x"] by (simp add: http_ok_basic quiet_def)

lemma begin_exit:
  assumes "hp_errno x = HPE_OK" "er \<le> length data" "J (hx_user x)"
    and "\<And>u. J u \<Longrightarrow> exits (k (x\<lparr>hx_user := u\<rparr>))"
  shows "exits (RUN_NOTIFY (on_message_begin st) HPE_CB_message_begin er x k)"
  by (rule RUN_NOTIFY_exit [where R = J and Q = exits]) (use assms begin_ok in auto)

lemma chunk_header_exit:
  assumes "hp_errno x = HPE_OK" "er \<le> length data" "J (hx_user x)"
    and "\<And>u. J u \<Longrightarrow> exits (k (x\<lparr>hx_user := u\<rparr>))"
  shows "exits (RUN_NOTIFY (on_chunk_header st) HPE_CB_chunk_header er x k)"
  by (rule RUN_NOTIFY_exit [where R = J and Q = exits]) (use assms chunk_header_ok in auto)

lemma chunk_complete_exit:
  assumes "hp_errno x = HPE_OK" "er \<le> length data" "J (hx_user x)"
    and "\<And>u. J u \<Longrightarrow> exits (k (x\<lparr>hx_user := u\<rparr>))"
  shows "exits (RUN_NOTIFY (on_chunk_complete st) HPE_CB_chunk_complete er x k)"
  by (rule RUN_NOTIFY_exit [where R = J and Q = exits]) (use assms chunk_complete_ok in auto)

lemma complete_exit:
  assumes "hp_errno x = HPE_OK" "hx_p x < length data" "J (hx_user x)"
    and "\<And>u s. J u \<Longrightarrow> s \<in> {s_start_req, s_start_res, s_dead} \<Longrightarrow>
           exits (k (x\<lparr>hp_state := s, hx_user := u\<rparr>))"
  shows "exits (message_complete st x k)"
  unfolding message_complete_def
  by (rule RUN_NOTIFY_exit [where R = J and Q = exits])
     (use assms complete_ok NEW_MESSAGE_states in \<open>auto simp del: insert_iff\<close>)

lemma url_exit:
  assumes "hp_errno x = HPE_OK" "\<And>y. hp_errno y = HPE_CB_url \<Longrightarrow> Q (y, Return er)"
    and "J (hx_user x)" "\<And>m. hx_url x = Some m \<Longrightarrow> m \<le> hx_p x" "hx_p x \<le> length data"
    and k: "\<And>u. J u \<Longrightarrow> Q (k (x\<lparr>hx_user := u, hx_url := None\<rparr>))"
  shows "Q (url_data st data er x k)"
proof -
  have unmarked: "hx_url x = None \<Longrightarrow> Q (k x)" using k [OF assms(3)] by simp
  show ?thesis
    unfolding url_data_def
    by (rule RUN_DATA_exit [where R = J and Q = Q]) (use assms unmarked url_ok in auto)
qed

lemma status_exit:
  assumes "hp_errno x = HPE_OK" "\<And>y. hp_errno y = HPE_CB_status \<Longrightarrow> Q (y, Return er)"
    and "J (hx_user x)" "\<And>m. hx_status x = Some m \<Longrightarrow> m \<le> hx_p x" "hx_p x \<le> length data"
    and k: "\<And>u. J u \<Longrightarrow> Q (k (x\<lparr>hx_user := u, hx_status := None\<rparr>))"
  shows "Q (status_data st data er x k)"
proof -
  have unmarked: "hx_status x = None \<Longrightarrow> Q (k x)" using k [OF assms(3)] by simp
  show ?thesis
    unfolding status_data_def
    by (rule RUN_DATA_exit [where R = J and Q = Q]) (use assms unmarked status_ok in auto)
qed

lemma field_exit:
  assumes "hp_errno x = HPE_OK" "\<And>y. hp_errno y = HPE_CB_header_field \<Longrightarrow> Q (y, Return er)"
    and "J (hx_user x)" "\<And>m. hx_header_field x = Some m \<Longrightarrow> m \<le> hx_p x" "hx_p x \<le> length data"
    and "hx_header_field x = None \<Longrightarrow> Q (k x)"
    and "\<And>u. V u \<Longrightarrow> hx_header_field x \<noteq> None \<Longrightarrow> Q (k (x\<lparr>hx_user := u, hx_header_field := None\<rparr>))"
  shows "Q (header_field_data st data er x k)"
  unfolding header_field_data_def
  by (rule RUN_DATA_exit [where R = V and Q = Q]) (use assms field_ok no_field in auto)

lemma value_exit:
  assumes "hp_errno x = HPE_OK" "\<And>y. hp_errno y = HPE_CB_header_value \<Longrightarrow> Q (y, Return er)"
    and "\<And>m. hx_header_value x = Some m \<Longrightarrow> m \<le> hx_p x \<and> V (hx_user x)" "hx_p x \<le> length data"
    and "hx_header_value x = None \<Longrightarrow> Q (k x)"
    and "\<And>u. V u \<Longrightarrow> hx_header_value x \<noteq> None \<Longrightarrow> Q (k (x\<lparr>hx_user := u, hx_header_value := None\<rparr>))"
  shows "Q (header_value_data st data er x k)"
  unfolding header_value_data_def
  by (rule RUN_DATA_exit [where R = V and Q = Q]) (use assms value_ok in auto)

lemma body_exit:
  assumes "hp_errno x = HPE_OK" "\<And>y. hp_errno y = HPE_CB_body \<Longrightarrow> Q (y, Return er)"
    and "J (hx_user x)" "\<And>m. hx_body x = Some m \<Longrightarrow> m < e" "e \<le> length data"
    and k: "\<And>u. J u \<Longrightarrow> Q (k (x\<lparr>hx_user := u, hx_body := None\<rparr>))"
  shows "Q (body_data st data e er x k)"
proof -
  have unmarked: "hx_body x = None \<Longrightarrow> Q (k x)" using k [OF assms(3)] by simp
  have call: "\<exists>rc u. f (http_parser.truncate x) m (take (e - m) (drop m data)) (hx_user x)
      = Some (rc, u) \<and> J u" if "on_body st = Some f" "hx_body x = Some m" for f m
    using that assms(3-5) by (intro body_ok) auto
  show ?thesis
    unfolding body_data_def
    by (rule RUN_DATA_exit [where R = J and Q = Q])
       (use assms unmarked call in \<open>auto intro: less_imp_le\<close>)
qed

lemmas exit_rules = begin_exit chunk_header_exit chunk_complete_exit complete_exit
  url_exit [where Q = exits] status_exit [where Q = exits] field_exit [where Q = exits]
  value_exit [where Q = exits] body_exit [where Q = exits]
  ASSERT_exit STRICT_CHECK_exit COUNT_HEADER_SIZE_exit headers_complete_post [where Q = exits]

lemma start_exit:
  assumes "run x"
  shows "hp_state x = s_dead \<Longrightarrow> exits (do_dead ch x)"
    and "hp_state x = s_start_req_or_res \<Longrightarrow> exits (do_start_req_or_res st ch x)"
    and "hp_state x = s_res_or_resp_H \<Longrightarrow> exits (do_res_or_resp_H ch x)"
    and "hp_state x = s_start_res \<Longrightarrow> exits (do_start_res st ch x)"
  using assms
  by (auto simp: http_ok_defs do_dead_def do_start_req_or_res_def do_res_or_resp_H_def
        do_start_res_def Let_def intro!: exit_rules)

lemma expect_exit:
  assumes "run x" "hp_state x \<in> set plain_states" "s \<in> set plain_states"
  shows "exits (do_expect c s ch x)"
  using quiet_run [OF assms(1,2)] assms(3)
  by (simp add: do_expect_def STRICT_CHECK_exit quiet_head)

lemma version_exit:
  assumes "run x" "hp_state x \<in> set plain_states"
  shows "exits (do_res_first_http_major ch x)"
    and "s \<in> set plain_states \<Longrightarrow> exits (do_http_major s ch x)"
    and "s \<in> set plain_states \<Longrightarrow> exits (do_first_http_minor s ch x)"
    and "exits (do_res_http_minor ch x)"
    and "exits (do_req_first_http_major ch x)"
    and "exits (do_req_http_minor ch x)"
    and "exits (do_req_line_almost_done ch x)"
    and "exits (do_req_http_start ch x)"
    and "exits (do_res_first_status_code ch x)"
    and "exits (do_res_status_code ch x)"
  using quiet_run [OF assms] assms(2)
  by (simp_all add: do_res_first_http_major_def do_http_major_def do_first_http_minor_def
      do_res_http_minor_def do_req_first_http_major_def do_req_http_minor_def minor_digit_def
      do_req_line_almost_done_def do_req_http_start_def do_res_first_status_code_def
      do_res_status_code_def Let_def quiet_head plain_members)

lemma status_exits:
  assumes "run x"
  shows "hp_state x = s_res_status_start \<Longrightarrow> exits (do_res_status_start ch x)"
    and "hp_state x = s_res_status \<Longrightarrow> exits (do_res_status st data ch x)"
  using assms
  by (auto simp: http_ok_defs do_res_status_start_def do_res_status_def intro!: exit_rules)

lemma method_exits:
  assumes "run x"
  shows "hp_state x = s_start_req \<Longrightarrow> exits (do_start_req st ch x)"
    and "hp_state x = s_req_method \<Longrightarrow> exits (do_req_method ch x)"
proof -
  show "exits (do_start_req st ch x)" if "hp_state x = s_start_req"
    using assms that
    by (auto simp: http_ok_defs do_start_req_def Let_def dest!: first_method_length
             intro!: exit_rules split: option.split)
  show "exits (do_req_method ch x)" if s: "hp_state x = s_req_method"
  proof -
    have i: "unat (hp_index x) \<le> length (method_string (hp_method x))"
      using assms s by (simp add: http_ok_defs)
    have Suc: "unat (hp_index x + 1) = Suc (unat (hp_index x))"
      by (rule unat_Suc7 [OF i method_string_length])
    have ne: "cstring (method_string (hp_method x)) (unat (hp_index x)) \<noteq> 0 \<Longrightarrow>
        unat (hp_index x) < length (method_string (hp_method x))"
      by (simp add: cstring_def split: if_splits)
    show ?thesis
      using assms s i ne
      by (auto simp: http_ok_defs do_req_method_def Let_def Suc dest!: switch_method_length
               intro!: exit_rules split: option.split)
  qed
qed

lemma url_step_exit:
  assumes "quiet J (x\<lparr>hx_url := None\<rparr>)" "hx_p x < length data"
    and "\<And>m. hx_url x = Some m \<Longrightarrow> m \<le> hx_p x"
  shows "exits (url_step ch x)"
proof (cases "parse_url_char (hp_state x) ch = s_dead")
  case True
  then show ?thesis using assms(2) by (simp add: url_step_def)
next
  case False
  let ?y = "x\<lparr>hp_state := parse_url_char (hp_state x) ch, hx_p := Suc (hx_p x)\<rparr>"
  have "head_ok J V data ?y"
  proof (rule url_head)
    show "quiet J (?y\<lparr>hx_url := None\<rparr>)" using assms(1) by (simp add: quiet_def)
    show "hp_state ?y \<in> set url_states" using url_step_states [OF False] by simp
  qed (use assms(2,3) in \<open>auto intro: le_SucI\<close>)
  then show ?thesis using False by (simp add: url_step_def)
qed

lemma url_exits:
  assumes "run x"
  shows "hp_state x = s_req_spaces_before_url \<Longrightarrow> exits (do_req_spaces_before_url ch x)"
    and "hp_state x \<in> set url_states \<Longrightarrow> exits (do_req_schema ch x)"
    and "hp_state x \<in> set url_states \<Longrightarrow> exits (do_req_url st data ch x)"
proof -
  show "exits (do_req_spaces_before_url ch x)" if s: "hp_state x = s_req_spaces_before_url"
  proof -
    have q: "quiet J x \<and> hx_p x < length data"
      using quiet_run [OF assms] s by (simp add: plain_states_def)
    then show ?thesis
      using s
      by (auto simp: do_req_spaces_before_url_def Let_def plain_states_def quiet_def
               intro!: quiet_head url_step_exit)
  qed
  assume s: "hp_state x \<in> set url_states"
  note u = url_run [OF assms s]
  show "exits (do_req_schema ch x)"
    using u by (auto simp: do_req_schema_def intro!: url_step_exit)
  have "quiet J (x\<lparr>hx_url := None, hx_user := u\<rparr>)" if "J u" for u
    using u(1) that by (simp add: quiet_def)
  then show "exits (do_req_url st data ch x)"
    using u
    by (auto simp: do_req_url_def quiet_def plain_members intro!: exit_rules url_step_exit quiet_head)
qed

lemma header_exits:
  assumes "run x"
  shows "hp_state x = s_header_field_start \<Longrightarrow> exits (do_header_field_start ch x)"
    and "hp_state x = s_header_almost_done \<Longrightarrow> exits (do_header_almost_done ch x)"
    and "hp_state x = s_header_value_lws \<Longrightarrow> exits (do_header_value_lws ch x)"
    and "hp_state x = s_header_value_discard_ws_almost_done \<Longrightarrow>
           exits (do_expect LF s_header_value_discard_lws ch x)"
    and "hp_state x = s_header_value_discard_lws \<Longrightarrow>
           exits (do_header_value_discard_lws st data ch x)"
  using assms
  by (auto simp: http_ok_defs do_header_field_start_def header_of_token_def field_header_states_def
        do_header_almost_done_def do_header_value_lws_def do_expect_def V_J
        do_header_value_discard_lws_def Let_def intro!: exit_rules)

lemma header_value_started:
  assumes "quiet J (x\<lparr>hx_header_value := None\<rparr>)" "hx_header_value x = Some (hx_p x)"
    and "V (hx_user x)" "hx_p x < length data" "hp_state x = s_header_value"
    and "hp_header_state x \<noteq> h_connection" "hp_header_state x \<noteq> h_transfer_encoding"
  shows "exits (x, Break)"
  using assms by (simp add: http_ok_defs quiet_def V_J)

lemma header_value_start_exit:
  assumes "run x" "hp_state x = s_header_value_start \<or> hp_state x = s_header_value_discard_ws"
  shows "exits (do_header_value_start ch x)"
proof -
  have q: "quiet J x \<and> V (hx_user x) \<and> hx_p x < length data"
    using assms(2,1) by (elim disjE) (simp_all add: http_ok_defs quiet_def)
  show ?thesis
    using q unfolding do_header_value_start_def Let_def
    by (cases "hp_header_state x")
       (simp_all del: exit_ok_exits(1) add: exit_ok_exits(6) header_value_started quiet_def MARK_def
          connection_token_def)
qed

lemma header_value_discard_exit:
  assumes "run x" "hp_state x = s_header_value_discard_ws"
  shows "exits (do_header_value_discard_ws ch x)"
proof -
  have "exits (do_header_value_start ch x)" using assms header_value_start_exit by simp
  then show ?thesis
    using assms by (auto simp: http_ok_defs do_header_value_discard_ws_def)
qed

lemma header_field_exit:
  assumes "run x" "hp_state x = s_header_field"
  shows "exits (do_header_field st data x)"
proof -
  have "hp_header_state x \<in> set field_header_states" using assms by (simp add: http_ok_basic)
  then obtain y where y: "header_field_loop data x = Some y" "header_frame y = header_frame x"
      "hp_header_state y \<in> set field_header_states"
    using header_field_loop_ok by blast
  have p: "hx_p x \<le> hx_p y" "hx_p y \<le> length data"
    using header_field_loop_p [OF y(1)] assms by (auto simp: http_ok_basic)
  note same = header_frame_fields [OF y(2)]
  show ?thesis
    using assms y p
    by (auto simp: do_header_field_def http_ok_defs same V_J intro!: exit_rules)
qed

lemma header_value_after_exit:
  assumes "hp_errno x = HPE_OK" "hx_p x \<le> length data" "0 < length data" "quiet J x" "V (hx_user x)"
    and "hp_state x = s_header_almost_done"
  shows "exits (header_value_after data start h x)"
  using assms
  by (auto simp: header_value_after_def http_ok_defs quiet_def intro!: exit_rules)

lemma header_value_exit:
  assumes "run x" "hp_state x = s_header_value"
  shows "exits (do_header_value st data x)"
proof -
  obtain y h e where l: "header_value_loop data (hp_header_state x) x = (y, h, e)"
    by (cases "header_value_loop data (hp_header_state x) x")
  have ok: "e \<noteq> HV_Crash \<and> e \<noteq> HV_Error HPE_OK \<and> h \<noteq> h_connection \<and> h \<noteq> h_transfer_encoding
     \<and> header_frame y = header_frame x"
    using header_value_loop_ok [OF _ _ assms(2) l] assms by (simp add: http_ok_basic)
  then have same: "header_frame y = header_frame x" by blast
  note same = header_frame_fields [OF same]
  have p: "hx_p x \<le> hx_p y" "hx_p y \<le> length data" "e \<noteq> HV_End \<Longrightarrow> hx_p y < length data"
    using header_value_loop_p [OF l] assms by (auto simp: http_ok_basic)
  show ?thesis
    using assms ok p
    by (cases e)
       (auto simp: do_header_value_def l http_ok_defs same V_J quiet_def header_value_after_def Let_def
             intro!: exit_rules)
qed

lemma quiet_end:
  assumes "run x" "hp_state x \<in> {s_headers_almost_done, s_headers_done, s_message_done}"
  shows "quiet J x \<and> hx_p x < length data"
  using assms(2,1) by (elim insertE) (simp_all add: http_ok_defs quiet_def)

lemma message_break:
  assumes "quiet J x" "hx_p x < length data"
  shows "exits (message_complete st x (\<lambda>x. (x, Break)))"
proof (rule complete_exit)
  fix u and s :: http_state
  assume "J u" and s: "s \<in> {s_start_req, s_start_res, s_dead}"
  then show "exits (x\<lparr>hp_state := s, hx_user := u\<rparr>, Break)"
    using assms s by (elim insertE) (simp_all add: http_ok_defs quiet_def)
qed (use assms in \<open>simp_all add: quiet_def\<close>)

lemma message_return:
  assumes "quiet J x" "hx_p x < length data" "hp_upgrade x"
  shows "exits (message_complete st x (\<lambda>x. (x, Return (Suc (hx_p x)))))"
proof (rule complete_exit)
  fix u and s :: http_state
  assume "J u" and s: "s \<in> {s_start_req, s_start_res, s_dead}"
  then show "exits (x\<lparr>hp_state := s, hx_user := u\<rparr>, Return (Suc (hx_p (x\<lparr>hp_state := s, hx_user := u\<rparr>))))"
    using assms s by (elim insertE) (simp_all add: http_ok_defs quiet_def)
qed (use assms in \<open>simp_all add: quiet_def\<close>)

lemma message_done_exit:
  assumes "run x" "hp_state x = s_message_done"
  shows "exits (do_message_done st x)"
proof -
  have q: "quiet J x \<and> hx_p x < length data" using quiet_end assms by simp
  show ?thesis
    unfolding do_message_done_def
  proof (rule complete_exit)
    fix u and s :: http_state
    let ?y = "x\<lparr>hp_state := s, hx_user := u\<rparr>"
    assume "J u" and s: "s \<in> {s_start_req, s_start_res, s_dead}"
    then show "exits (if hp_upgrade ?y then (?y, Return (hx_p ?y + 1)) else (?y, Break))"
      using q s by (elim insertE) (simp_all add: http_ok_defs quiet_def)
  qed (use q in \<open>simp_all add: quiet_def\<close>)
qed

lemma headers_done_exit:
  assumes "run x" "hp_state x = s_headers_done"
  shows "exits (do_headers_done st ch x)"
proof -
  have q: "quiet J x \<and> hx_p x < length data" using quiet_end assms by simp
  then have q0: "quiet J (x\<lparr>hp_nread := 0\<rparr>)" by (simp add: quiet_def)
  show ?thesis
    using q q0 message_break [OF q0] message_return [OF q0]
    by (auto simp: do_headers_done_def http_ok_defs quiet_def Let_def intro!: STRICT_CHECK_exit)
qed

lemma headers_almost_done_exit:
  assumes "run x" "hp_state x = s_headers_almost_done"
  shows "exits (do_headers_almost_done st ch x)"
proof -
  have q: "quiet J x \<and> hx_p x < length data" using quiet_end assms by simp
  have call: "f ps u = None \<Longrightarrow> False" if "on_headers_complete st = Some f" "J u" for f ps u
    using headers_ok [OF that, of ps] by auto
  have J: "J u" if "on_headers_complete st = Some f" "f ps (hx_user x) = Some (rc, u)" for f ps rc u
    using headers_ok [OF that(1), of "hx_user x" ps] q that(2) by (auto simp: quiet_def)
  show ?thesis
    using q call J
    by (auto simp: do_headers_almost_done_def headers_complete_def http_ok_defs quiet_def Let_def
             intro!: STRICT_CHECK_exit chunk_complete_exit split: option.split)
qed

lemma body_exits:
  assumes "run x"
  shows "hp_state x = s_body_identity \<Longrightarrow> exits (do_body_identity st data x)"
    and "hp_state x = s_body_identity_eof \<Longrightarrow> exits (do_body_identity_eof data x)"
    and "hp_state x = s_chunk_data \<Longrightarrow> exits (do_chunk_data data x)"
    and "hp_state x = s_chunk_data_almost_done \<Longrightarrow> exits (do_chunk_data_almost_done st data ch x)"
    and "hp_state x = s_chunk_data_done \<Longrightarrow> exits (do_chunk_data_done st ch x)"
  using assms to_read_range [of x data] content_left_ok [of "to_read data x" "hp_content_length x"]
  by (auto simp: http_ok_defs do_body_identity_def do_body_identity_eof_def do_chunk_data_def
        do_chunk_data_almost_done_def do_chunk_data_done_def read_body_def Let_def
        intro!: exit_rules split: if_splits)

lemma chunk_exits:
  assumes "run x"
  shows "hp_state x = s_chunk_size_start \<Longrightarrow> exits (do_chunk_size_start ch x)"
    and "hp_state x = s_chunk_size \<Longrightarrow> exits (do_chunk_size ch x)"
    and "hp_state x = s_chunk_parameters \<Longrightarrow> exits (do_chunk_parameters ch x)"
    and "hp_state x = s_chunk_size_almost_done \<Longrightarrow> exits (do_chunk_size_almost_done st ch x)"
  using assms chunk_size_ok [of "hp_content_length x" ch] chunk_digit_ok [of ch]
  by (auto simp: http_ok_defs do_chunk_size_start_def do_chunk_size_def do_chunk_parameters_def
        do_chunk_size_almost_done_def Let_def intro!: exit_rules)

lemma step_exit:
  assumes "run x"
  shows "exits (http_step st data x)"
  using assms
  by (cases "hp_state x")
     (simp_all add: http_step_def Let_def start_exit expect_exit version_exit status_exits
        method_exits url_exits header_exits header_value_start_exit header_value_discard_exit
        header_field_exit header_value_exit headers_almost_done_exit headers_done_exit
        message_done_exit body_exits chunk_exits plain_states_def url_states_def)

lemma head_run:
  assumes "head_ok J V data x" "hx_p x \<noteq> length data"
  shows "hp_nread x + 1 \<le> HTTP_MAX_HEADER_SIZE \<Longrightarrow> run (x\<lparr>hp_nread := hp_nread x + 1\<rparr>)"
    and "\<not> parsing_header (hp_state x) \<Longrightarrow> run x"
proof -
  show "hp_nread x + 1 \<le> HTTP_MAX_HEADER_SIZE \<Longrightarrow> run (x\<lparr>hp_nread := hp_nread x + 1\<rparr>)"
    using assms by (simp add: http_ok_basic)
  have "parsing_header s_chunk_size_start" by (simp add: parsing_header_def)
  then show "\<not> parsing_header (hp_state x) \<Longrightarrow> run x"
    using assms by (cases "hp_state x = s_chunk_size_start") (simp_all add: run_ok_def head_ok_def)
qed

lemma loop_exit:
  "(if head then head_ok J V data x else run x) \<Longrightarrow> loop_ok J V data (http_loop st data head x)"
proof (induct "length data - hx_p x" arbitrary: head x rule: less_induct)
  case less
  have head: "loop_ok J V data (http_loop st data True y)"
    if "head_ok J V data y" "hx_p x < hx_p y" "hx_p x < length data" for y
    using less(1) [of y True] that(1) diff_less_mono2 [OF that(2,3)] by simp
  have run: "loop_ok J V data (http_loop st data False y)" if "run y" "hx_p x \<le> hx_p y" for y
    using that
  proof (induct "reexecute_rank (hp_state y)" arbitrary: y rule: less_induct)
    case (less y)
    have p: "hx_p y < length data" using less(2) by (simp add: run_ok_def)
    obtain z f where z: "http_step st data y = (z, f)" by (cases "http_step st data y")
    have ok: "exits (z, f)" using step_exit [OF less(2)] z by simp
    have pr: "progress data y (z, f)" using http_step_progress [OF p, of st] z by simp
    show ?case
    proof (cases f)
      case Break
      then show ?thesis
        using head [of "z\<lparr>hx_p := Suc (hx_p z)\<rparr>"] ok pr less(3) p z
        by (subst http_loop.simps) simp
    next
      case Reexecute
      then show ?thesis
        using less(1) [of z] ok pr less(3) p z by (subst http_loop.simps) simp
    qed (use ok p z in \<open>(subst http_loop.simps, simp)+\<close>)
  qed
  show ?case
  proof (cases "head \<and> hx_p x \<noteq> length data")
    case True
    then have h: "head_ok J V data x" "hx_p x \<le> length data" using less(2) by (auto simp: head_ok_def)
    show ?thesis
      using True h head_run [OF h(1)] run [of x] run [of "x\<lparr>hp_nread := hp_nread x + 1\<rparr>"]
      by (subst http_loop.simps) (simp add: Let_def not_less)
  next
    case False
    then show ?thesis
      using less(2) run [of x] by (cases head) (subst http_loop.simps, simp, simp)
  qed
qed

lemma marked_once:
  assumes "head_ok J V data x"
  obtains (none) "hx_header_field x = None" "hx_header_value x = None" "hx_url x = None"
      "hx_body x = None" "hx_status x = None"
  | (field) "hx_header_field x \<noteq> None" "hx_header_value x = None" "hx_url x = None"
      "hx_body x = None" "hx_status x = None" "hp_state x = s_header_field"
  | (val) "hx_header_field x = None" "hx_header_value x \<noteq> None" "hx_url x = None"
      "hx_body x = None" "hx_status x = None" "hp_state x = s_header_value"
  | (url) "hx_header_field x = None" "hx_header_value x = None" "hx_url x \<noteq> None"
      "hx_body x = None" "hx_status x = None" "hp_state x \<in> set url_states"
  | (body) "hx_header_field x = None" "hx_header_value x = None" "hx_url x = None"
      "hx_body x \<noteq> None" "hx_status x = None" "hp_state x \<in> set body_states"
  | (status) "hx_header_field x = None" "hx_header_value x = None" "hx_url x = None"
      "hx_body x = None" "hx_status x \<noteq> None" "hp_state x = s_res_status"
proof -
  have m: "hx_header_field x \<noteq> None \<Longrightarrow> hp_state x = s_header_field"
    "hx_header_value x \<noteq> None \<Longrightarrow> hp_state x = s_header_value"
    "hx_url x \<noteq> None \<Longrightarrow> hp_state x \<in> set url_states"
    "hx_body x \<noteq> None \<Longrightarrow> hp_state x \<in> set body_states"
    "hx_status x \<noteq> None \<Longrightarrow> hp_state x = s_res_status"
    using assms by (auto simp: head_ok_def marks_ok_def)
  have d: "s_header_field \<notin> set url_states" "s_header_field \<notin> set body_states"
    "s_header_value \<notin> set url_states" "s_header_value \<notin> set body_states"
    "s_res_status \<notin> set url_states" "s_res_status \<notin> set body_states"
    by (simp_all add: url_states_def body_states_def)
  have "hp_state x \<in> set url_states \<Longrightarrow> hp_state x \<notin> set body_states"
    using not_bound [OF free_states, of "hp_state x"] by blast
  with m d that show ?thesis by (metis http_state.distinct)
qed

lemma unmarked_data:
  assumes "hp_errno x = HPE_OK"
  shows "hx_header_field x = None \<Longrightarrow> header_field_data st data er x k = k x"
    and "hx_header_value x = None \<Longrightarrow> header_value_data st data er x k = k x"
    and "hx_url x = None \<Longrightarrow> url_data st data er x k = k x"
    and "hx_body x = None \<Longrightarrow> body_data st data e er x k = k x"
    and "hx_status x = None \<Longrightarrow> status_data st data er x k = k x"
  using assms
  by (simp_all add: header_field_data_def header_value_data_def url_data_def body_data_def
      status_data_def RUN_DATA_def ASSERT_def)

lemma finish_exit:
  assumes "head_ok J V data x" "hx_p x = length data"
  shows "finish_ok J V data (http_finish st data x)"
proof -
  have x: "hp_errno x = HPE_OK" "parser_ok x" "marks_ok x" "J (hx_user x)"
      "hp_state x \<in> set value_states \<Longrightarrow> V (hx_user x)"
      "hp_state x = s_chunk_size_start \<Longrightarrow> hp_nread x = 0"
    using assms(1) by (auto simp: head_ok_def client_ok_def)
  have ok: "finish_ok J V data (y, Return (length data))"
    if "hp_errno y \<noteq> HPE_OK \<or> parser_ok y \<and> J (hx_user y)
        \<and> (hp_state y \<in> set value_states \<longrightarrow> V (hx_user y))
        \<and> (hp_state y = s_chunk_size_start \<longrightarrow> hp_nread y = 0)" for y
    using that by (auto simp: finish_ok_def between_ok_def client_ok_def)
  have po: "parser_ok (x\<lparr>hx_user := u\<rparr>)" "parser_ok (x\<lparr>hx_user := u, hx_header_field := n\<rparr>)"
    "parser_ok (x\<lparr>hx_user := u, hx_header_value := n\<rparr>)" "parser_ok (x\<lparr>hx_user := u, hx_url := n\<rparr>)"
    "parser_ok (x\<lparr>hx_user := u, hx_body := n\<rparr>)" "parser_ok (x\<lparr>hx_user := u, hx_status := n\<rparr>)" for u n
    using x(2) by (simp_all add: parser_ok_def)
  note start = http_finish_def count_marks_def ASSERT_def unmarked_data
  show ?thesis
    using assms(1)
  proof (cases rule: marked_once)
    case none
    then show ?thesis using x assms(2) ok by (simp add: start)
  next
    case field
    with x assms(2) show ?thesis
      apply (simp add: start)
      apply (rule field_exit)
      apply (auto simp: marks_ok_def V_J po unmarked_data intro!: ok)
      done
  next
    case val
    with x assms(2) show ?thesis
      apply (simp add: start)
      apply (rule value_exit)
      apply (auto simp: marks_ok_def V_J po unmarked_data value_states_def intro!: ok)
      done
  next
    case url
    with x assms(2) not_bound [OF free_states, of "hp_state x"] show ?thesis
      apply (simp add: start)
      apply (rule url_exit)
      apply (auto simp: marks_ok_def po unmarked_data intro!: ok)
      done
  next
    case body
    then have "hp_state x \<notin> set value_states" "hp_state x \<noteq> s_chunk_size_start"
      by (auto simp: body_states_def value_states_def)
    with body x assms(2) show ?thesis
      apply (simp add: start)
      apply (rule body_exit)
      apply (auto simp: marks_ok_def po unmarked_data intro!: ok)
      done
  next
    case status
    with x assms(2) show ?thesis
      apply (simp add: start)
      apply (rule status_exit)
      apply (auto simp: marks_ok_def po unmarked_data value_states_def intro!: ok)
      done
  qed
qed

lemma enter_head:
  assumes "between_ok J V ps u" "hp_errno ps = HPE_OK"
  shows "head_ok J V data (http_enter ps u)"
  using assms
  by (auto simp: http_enter_def http_parser.extend_def head_ok_def between_ok_def parser_ok_def
      marks_ok_def client_ok_def)

lemma execute_ok:
  assumes "between_ok J V ps u"
  shows "\<exists>n ps' u'. http_parser_execute st ps u data = Some (n, ps', u')
    \<and> between_ok J V ps' u' \<and> (n \<le> length data \<or> data = [] \<and> n = 1)
    \<and> (hp_errno ps' = HPE_OK \<longrightarrow> n = length data \<or> hp_upgrade ps')"
proof (cases "hp_errno ps = HPE_OK \<and> data \<noteq> []")
  case True
  have "loop_ok J V data (http_loop st data True (http_enter ps u))"
    using loop_exit [of True] enter_head [OF assms] True by simp
  then show ?thesis
    using True finish_exit
    by (cases "http_loop st data True (http_enter ps u)"; cases "snd (http_loop st data True (http_enter ps u))")
       (force simp: http_parser_execute_def http_leave_def finish_ok_def loop_ok_def between_truncate
          truncate_fields split: http_flow.splits prod.splits)+
next
  case False
  show ?thesis
  proof (cases "hp_errno ps = HPE_OK \<and> hp_state ps = s_body_identity_eof")
    case True
    then have J: "J u" "parser_ok ps" using assms by (auto simp: between_ok_def client_ok_def)
    have "finish_ok J V data (RUN_NOTIFY (on_message_complete st) HPE_CB_message_complete 0
        (http_enter ps u) (\<lambda>x. (x, Return 0)))"
    proof (rule RUN_NOTIFY_exit [where R = J])
      show "J (hx_user (http_enter ps u))" using J by (simp add: http_enter_def http_parser.extend_def)
      fix v
      assume "J v"
      with True J show "finish_ok J V data ((http_enter ps u)\<lparr>hx_user := v\<rparr>, Return 0)"
        using False
        by (simp add: finish_ok_def between_ok_def client_ok_def parser_ok_def value_states_def
            chunk_states_def http_enter_def http_parser.extend_def)
    qed (use True J complete_ok False in
          \<open>auto simp: finish_ok_def http_enter_def http_parser.extend_def\<close>)
    moreover have "hx_p (http_enter ps u) = 0" by (simp add: http_enter_def http_parser.extend_def)
    moreover have "data = []" using True False by simp
    ultimately show ?thesis
      using True by (auto simp: http_parser_execute_def http_leave_def finish_ok_def
          split: http_flow.splits prod.splits)
  next
    case rest: False
    show ?thesis
    proof (cases "hp_errno ps = HPE_OK")
      case True
      then have "data = []" "hp_state ps \<noteq> s_body_identity_eof" using False rest by auto
      then show ?thesis
        using True assms
        by (cases "hp_state ps \<in> {s_dead, s_start_req_or_res, s_start_res, s_start_req}")
           (simp_all add: http_parser_execute_def)
    qed (simp add: http_parser_execute_def)
  qed
qed

end

subsection \<open>Safety and bounds of a call\<close>

text \<open>A client that does not abort: every callback returns.\<close>

definition callbacks_return :: "'u http_parser_settings \<Rightarrow> bool" where
  "callbacks_return st \<longleftrightarrow>
     (\<forall>ps u i bs.
        pred_option (\<lambda>f. f ps u \<noteq> None) (on_message_begin st)
        \<and> pred_option (\<lambda>f. f ps i bs u \<noteq> None) (on_url st)
        \<and> pred_option (\<lambda>f. f ps i bs u \<noteq> None) (on_status st)
        \<and> pred_option (\<lambda>f. f ps i bs u \<noteq> None) (on_header_field st)
        \<and> pred_option (\<lambda>f. f ps i bs u \<noteq> None) (on_header_value st)
        \<and> pred_option (\<lambda>f. f ps u \<noteq> None) (on_headers_complete st)
        \<and> pred_option (\<lambda>f. f ps i bs u \<noteq> None) (on_body st)
        \<and> pred_option (\<lambda>f. f ps u \<noteq> None) (on_message_complete st)
        \<and> pred_option (\<lambda>f. f ps u \<noteq> None) (on_chunk_header st)
        \<and> pred_option (\<lambda>f. f ps u \<noteq> None) (on_chunk_complete st))"

lemma total_client:
  assumes "callbacks_return st"
  shows "http_client st data (\<lambda>_. True) (\<lambda>_. True)"
  by unfold_locales (use assms in \<open>fastforce simp: callbacks_return_def\<close>)+

text \<open>The parser states that \<open>http_parser_init\<close> and calls of \<open>http_parser_execute\<close> produce.\<close>

inductive http_reachable :: "'u http_parser_settings \<Rightarrow> http_parser \<Rightarrow> 'u \<Rightarrow> bool"
  for st :: "'u http_parser_settings" where
  init: "http_reachable st (http_parser_init t) u"
| execute: "http_reachable st ps u \<Longrightarrow> http_parser_execute st ps u data = Some (n, ps', u') \<Longrightarrow>
    http_reachable st ps' u'"

lemma init_between: "J u \<Longrightarrow> between_ok J V (http_parser_init t) u"
  by (simp add: between_ok_def parser_ok_def client_ok_def http_parser_init_def chunk_states_def
      value_states_def HTTP_MAX_HEADER_SIZE_def)

lemma reachable_between:
  assumes "callbacks_return st" "http_reachable st ps u"
  shows "between_ok (\<lambda>_. True) (\<lambda>_. True) ps u"
  using assms(2)
proof induct
  case (init t u)
  show ?case by (simp add: init_between)
next
  case (execute ps u data n ps' u')
  then show ?case using http_client.execute_ok [OF total_client [OF assms(1)] execute(2), of data] by auto
qed

lemma execute_from_reachable:
  assumes "callbacks_return st" "http_reachable st ps u"
  shows "\<exists>n ps' u'. http_parser_execute st ps u data = Some (n, ps', u')
    \<and> between_ok (\<lambda>_. True) (\<lambda>_. True) ps' u' \<and> (n \<le> length data \<or> data = [] \<and> n = 1)
    \<and> (hp_errno ps' = HPE_OK \<longrightarrow> n = length data \<or> hp_upgrade ps')"
  using http_client.execute_ok [OF total_client [OF assms(1)] reachable_between [OF assms]] .

subsection \<open>Evaluation\<close>

text \<open>The loop as rewrite rules for concrete buffers, and the definitions to unfold.\<close>

fun http_continue :: "'u http_parser_settings \<Rightarrow> byte list \<Rightarrow> 'u http_exit \<Rightarrow> 'u http_exit" where
  "http_continue st data (x, Break) = http_loop st data True (x\<lparr>hx_p := hx_p x + 1\<rparr>)"
| "http_continue st data (x, Reexecute) = http_loop st data False x"
| "http_continue st data (x, Return n) = (x, Return n)"
| "http_continue st data (x, Error) = (x, Error)"
| "http_continue st data (x, Crash) = (x, Crash)"

lemma http_loop_eval:
  "http_loop st data True x =
     (if hx_p x = length data then (x, Break)
      else if parsing_header (hp_state x) then
        (if HTTP_MAX_HEADER_SIZE < hp_nread x + 1
         then GOTO_ERROR HPE_HEADER_OVERFLOW (x\<lparr>hp_nread := hp_nread x + 1\<rparr>)
         else http_loop st data False (x\<lparr>hp_nread := hp_nread x + 1\<rparr>))
      else http_loop st data False x)"
  "http_loop st data False x =
     (if length data \<le> hx_p x then (x, Crash) else http_continue st data (http_step st data x))"
  by (subst http_loop.simps, simp add: Let_def)
     (subst http_loop.simps, cases "http_step st data x"; cases "snd (http_step st data x)"; simp)

definition no_callbacks :: "unit http_parser_settings" where
  "no_callbacks = \<lparr>on_message_begin = None, on_url = None, on_status = None, on_header_field = None,
     on_header_value = None, on_headers_complete = None, on_body = None, on_message_complete = None,
     on_chunk_header = None, on_chunk_complete = None\<rparr>"

lemma no_callbacks_return: "callbacks_return no_callbacks"
  by (simp add: callbacks_return_def no_callbacks_def)

definition http_bytes :: "string \<Rightarrow> byte list" where
  "http_bytes s = map of_char s"

definition crlf :: string where
  "crlf = [CHR 13, CHR 10]"

lemmas http_eval =
  http_loop_eval header_field_loop.simps header_value_loop.simps http_parser.extend_def http_parser.truncate_def
  parsing_header_def token_table_def TOKEN_def unhex_table_def unhex_def normal_url_char_def
  BIT_AT_def LOWER_def IS_ALPHA_def IS_NUM_def IS_ALPHANUM_def IS_MARK_def IS_USERINFO_CHAR_def
  IS_URL_CHAR_def IS_HEADER_CHAR_def url_server_char_def parse_url_char_def url_states_def
  HTTP_MAX_HEADER_SIZE_def ULLONG_MAX_def start_state_def http_message_needs_eof_def
  http_should_keep_alive_def NEW_MESSAGE_def http_parser_init_def GOTO_ERROR_def ASSERT_def
  STRICT_CHECK_def COUNT_HEADER_SIZE_def RUN_NOTIFY_def RUN_DATA_def header_field_data_def
  header_value_data_def url_data_def body_data_def status_data_def MARK_def cstring_def
  do_dead_def do_start_req_or_res_def do_res_or_resp_H_def do_start_res_def do_expect_def
  digit_def do_res_first_http_major_def do_http_major_def do_first_http_minor_def minor_digit_def
  do_res_http_minor_def do_res_first_status_code_def do_res_status_code_def
  do_res_status_start_def do_res_status_def first_method_def do_start_req_def switch_method_def
  do_req_method_def url_step_def do_req_spaces_before_url_def do_req_schema_def do_req_url_def
  do_req_http_start_def do_req_first_http_major_def do_req_http_minor_def
  do_req_line_almost_done_def header_of_token_def do_header_field_start_def match_constant_def
  field_match_def header_field_char_def do_header_field_def connection_token_def
  do_header_value_start_def do_header_value_discard_ws_def memchr_def general_skip_def
  value_match_def value_token_done_def header_value_char_def header_value_after_def
  do_header_value_def do_header_almost_done_def header_done_flags_def do_header_value_lws_def
  do_header_value_discard_lws_def headers_complete_def do_headers_almost_done_def
  message_complete_def do_headers_done_def to_read_def read_body_def do_body_identity_def
  do_body_identity_eof_def do_message_done_def do_chunk_size_start_def do_chunk_size_def
  do_chunk_parameters_def do_chunk_size_almost_done_def do_chunk_data_def
  do_chunk_data_almost_done_def do_chunk_data_done_def http_step_def count_marks_def
  http_finish_def http_enter_def http_leave_def http_parser_execute_def no_callbacks_def
  http_bytes_def crlf_def


text \<open>
  C28 --- For every client whose callbacks return and every parser state that
  \<open>http_parser_init\<close> and earlier calls can produce, \<open>http_parser_execute\<close> returns: no
  assertion fails, no byte outside the buffer and no character beyond a string constant is
  read, and the loop ends.  It consumes the whole buffer unless it reports an error or the
  connection is upgraded.
\<close>

theorem http_execute_safe:
  assumes "callbacks_return st" "http_reachable st ps u"
  shows "\<exists>n ps' u'. http_parser_execute st ps u data = Some (n, ps', u')
    \<and> (hp_errno ps' = HPE_OK \<longrightarrow> n = length data \<or> hp_upgrade ps')"
  using execute_from_reachable [OF assms, of data] by blast

theorem http_execute_safe_witness:
  "\<exists>n ps' u'. http_parser_execute no_callbacks (http_parser_init HTTP_REQUEST) ()
       (http_bytes (''GET / HTTP/1.1'' @ crlf @ crlf)) = Some (n, ps', u')"
  using http_execute_safe [OF no_callbacks_return http_reachable.init [of no_callbacks HTTP_REQUEST],
      where data = "http_bytes (''GET / HTTP/1.1'' @ crlf @ crlf)"] by blast

text \<open>
  C29 --- The result is at most the length of the buffer, except that a call with an empty
  buffer in the middle of a message returns 1.  While no error is reported, the count of
  header bytes stays within \<open>HTTP_MAX_HEADER_SIZE\<close>, and in a body the remaining length is
  neither 0 nor the value that stands for an unknown length.
\<close>

theorem http_execute_bounds:
  assumes "callbacks_return st" "http_reachable st ps u"
    and "http_parser_execute st ps u data = Some (n, ps', u')"
  shows "n \<le> max 1 (length data) \<and> (data \<noteq> [] \<longrightarrow> n \<le> length data)
    \<and> (hp_errno ps' = HPE_OK \<longrightarrow> unat (hp_nread ps') \<le> 80 * 1024
        \<and> (hp_state ps' \<in> {s_body_identity, s_chunk_data} \<longrightarrow>
             0 < hp_content_length ps' \<and> hp_content_length ps' < ULLONG_MAX))"
proof -
  have r: "between_ok (\<lambda>_. True) (\<lambda>_. True) ps' u'" "n \<le> length data \<or> data = [] \<and> n = 1"
    using execute_from_reachable [OF assms(1,2), of data] assms(3) by auto
  have "hp_errno ps' = HPE_OK \<Longrightarrow> unat (hp_nread ps') \<le> 80 * 1024"
    using r(1) by (simp add: between_ok_def parser_ok_def HTTP_MAX_HEADER_SIZE_def word_le_nat_alt)
  moreover have "c \<noteq> 0 \<Longrightarrow> c \<noteq> ULLONG_MAX \<Longrightarrow> 0 < c \<and> c < ULLONG_MAX" for c :: "64 word"
    using word_n1_ge [of c] by (simp add: ULLONG_MAX_def word_gt_0 order_less_le)
  then have "hp_errno ps' = HPE_OK \<Longrightarrow> hp_state ps' \<in> {s_body_identity, s_chunk_data} \<Longrightarrow>
      0 < hp_content_length ps' \<and> hp_content_length ps' < ULLONG_MAX"
    using r(1) by (auto simp: between_ok_def parser_ok_def)
  ultimately show ?thesis using r(2) by auto
qed

theorem http_execute_bounds_witness:
  "\<exists>n ps'. http_parser_execute no_callbacks (http_parser_init HTTP_REQUEST) ()
       (http_bytes (''POST / HTTP/1.1'' @ crlf @ ''Content-Length: 5'' @ crlf @ crlf @ ''ab''))
       = Some (n, ps', ())
     \<and> n \<le> 40 \<and> unat (hp_nread ps') \<le> 81920 \<and> 0 < hp_content_length ps'
     \<and> hp_content_length ps' < ULLONG_MAX"
proof -
  let ?d = "http_bytes (''POST / HTTP/1.1'' @ crlf @ ''Content-Length: 5'' @ crlf @ crlf @ ''ab'')"
  have len: "?d \<noteq> []" "length ?d = 40" by (simp_all add: http_bytes_def crlf_def)
  have "\<exists>n ps'. http_parser_execute no_callbacks (http_parser_init HTTP_REQUEST) () ?d
      = Some (n, ps', ()) \<and> hp_errno ps' = HPE_OK \<and> hp_state ps' = s_body_identity"
    by (simp add: http_eval)
  then obtain n ps' where e: "http_parser_execute no_callbacks (http_parser_init HTTP_REQUEST) () ?d
      = Some (n, ps', ())" "hp_errno ps' = HPE_OK" "hp_state ps' = s_body_identity" by blast
  show ?thesis
    using http_execute_bounds [OF no_callbacks_return http_reachable.init e(1)] e len by auto
qed



end
