(* ===== verification/Http_Codec.thy ===== *)
theory Http_Codec
  imports Http_Safe
begin

text \<open>
  \<open>http::Parser\<close> (\<open>HttpParser.h\<close>, \<open>HttpParser.cpp\<close>), the client of \<open>http_parser\<close> that
  collects a message in an \<open>HttpFrame\<close>, and the codecs of \<open>HttpCodec.cpp\<close> on top of it.

  The parser object and its callbacks' state are two records: \<open>http_parser_execute\<close> changes
  the first, the callbacks the second.  A string is its list of bytes, an
  \<open>unordered_map\<close> a map.  An \<open>IOBufQueue\<close> that is decoded is the list of its buffers, since
  \<open>pop_front\<close> takes them one by one; an \<open>IOBufQueue\<close> that is encoded into is its content.
  The order in which an \<open>unordered_map\<close> is traversed is not specified, so the encoders take
  the traversal as an argument.
\<close>

subsection \<open>Frames\<close>

text \<open>The number of a method, and \<open>http_method_str\<close>.\<close>

definition http_methods :: "http_method list" where
  "http_methods =
     [HTTP_DELETE, HTTP_GET, HTTP_HEAD, HTTP_POST, HTTP_PUT, HTTP_CONNECT, HTTP_OPTIONS,
      HTTP_TRACE, HTTP_COPY, HTTP_LOCK, HTTP_MKCOL, HTTP_MOVE, HTTP_PROPFIND, HTTP_PROPPATCH,
      HTTP_SEARCH, HTTP_UNLOCK, HTTP_BIND, HTTP_REBIND, HTTP_UNBIND, HTTP_ACL, HTTP_REPORT,
      HTTP_MKACTIVITY, HTTP_CHECKOUT, HTTP_MERGE, HTTP_MSEARCH, HTTP_NOTIFY, HTTP_SUBSCRIBE,
      HTTP_UNSUBSCRIBE, HTTP_PATCH, HTTP_PURGE, HTTP_MKCALENDAR, HTTP_LINK, HTTP_UNLINK]"

definition method_number :: "http_method \<Rightarrow> nat" where
  "method_number m = length (takeWhile (\<lambda>x. x \<noteq> m) http_methods)"

definition http_method_str :: "nat \<Rightarrow> string" where
  "http_method_str n = (if n < length http_methods then method_string (http_methods ! n) else ''<unknown>'')"

lemma http_method_str_number [simp]: "http_method_str (method_number m) = method_string m"
  by (cases m) (simp_all add: http_method_str_def method_number_def http_methods_def)

record http_frame =
  hf_err :: http_errno
  hf_http_errno :: nat
  hf_method :: nat
  hf_content_length :: "64 word"
  hf_path :: "byte list"
  hf_headers :: "byte list \<rightharpoonup> byte list"
  hf_eof :: bool
  hf_body :: "byte list list"

definition HttpFrame_reset :: "http_frame \<Rightarrow> http_frame" where
  "HttpFrame_reset f =
     f\<lparr>hf_err := HPE_OK, hf_method := 0, hf_content_length := 0, hf_http_errno := 0,
       hf_headers := Map.empty, hf_path := [], hf_body := [], hf_eof := False\<rparr>"

definition HttpFrame :: http_frame where
  "HttpFrame = \<lparr>hf_err = HPE_OK, hf_http_errno = 0, hf_method = 0, hf_content_length = 0,
     hf_path = [], hf_headers = Map.empty, hf_eof = False, hf_body = []\<rparr>"

lemma HttpFrame_reset_eq [simp]: "HttpFrame_reset f = HttpFrame"
  by (cases f) (simp add: HttpFrame_reset_def HttpFrame_def)

definition hasContentLength :: "http_frame \<Rightarrow> bool" where
  "hasContentLength f \<longleftrightarrow> hf_content_length f < 2 ^ 63 - 1"

subsection \<open>The callbacks\<close>

datatype parser_state = INIT | HEADER | VALUE

record parser_fields =
  pf_allow_body :: bool
  pf_field :: "byte list"
  pf_value :: "byte list"
  pf_s :: parser_state
  pf_header_completed :: bool
  pf_completed :: bool
  pf_cur_buf :: "byte list option"
  pf_req :: http_frame

definition Parser_reset :: "parser_fields \<Rightarrow> parser_fields" where
  "Parser_reset u =
     u\<lparr>pf_header_completed := False, pf_completed := False, pf_field := [], pf_value := [],
       pf_req := HttpFrame_reset (pf_req u), pf_s := INIT\<rparr>"

definition url_cb :: "parser_fields http_data_cb" where
  "url_cb ps i at u = Some (0, u\<lparr>pf_req := (pf_req u)\<lparr>hf_path := hf_path (pf_req u) @ at\<rparr>\<rparr>)"

definition store_header :: "parser_fields \<Rightarrow> parser_fields" where
  "store_header u =
     (if pf_s u = VALUE
      then u\<lparr>pf_req := (pf_req u)\<lparr>hf_headers := (hf_headers (pf_req u))(pf_field u \<mapsto> pf_value u)\<rparr>\<rparr>
      else u)"

definition header_field_cb :: "parser_fields http_data_cb" where
  "header_field_cb ps i at u =
     (let u = store_header u;
          u = (if pf_s u = INIT \<or> pf_s u = VALUE then u\<lparr>pf_field := at\<rparr>
               else u\<lparr>pf_field := pf_field u @ at\<rparr>)
      in Some (0, u\<lparr>pf_s := HEADER\<rparr>))"

definition header_value_cb :: "parser_fields http_data_cb" where
  "header_value_cb ps i at u =
     (case pf_s u of
        VALUE \<Rightarrow> Some (0, u\<lparr>pf_value := pf_value u @ at, pf_s := VALUE\<rparr>)
      | HEADER \<Rightarrow> Some (0, u\<lparr>pf_value := at, pf_s := VALUE\<rparr>)
      | INIT \<Rightarrow> None)"

text \<open>
  The body is a clone of the current buffer, trimmed to the \<open>length\<close> bytes at offset \<open>i\<close>;
  the four assertions come first.
\<close>

definition body_cb :: "parser_fields http_data_cb" where
  "body_cb ps i at u =
     (case pf_cur_buf u of
        None \<Rightarrow> None
      | Some buf \<Rightarrow>
          if at = [] \<or> length buf < i + length at then None
          else let trim_end = length buf - (i + length at);
                   clone = take (length buf - i - trim_end) (drop i buf)
               in Some (0, u\<lparr>pf_req := (pf_req u)\<lparr>hf_body := hf_body (pf_req u) @ [clone]\<rparr>\<rparr>))"

definition header_complete_cb :: "parser_fields http_cb" where
  "header_complete_cb ps u =
     (let u = store_header u;
          u = u\<lparr>pf_req := (pf_req u)\<lparr>hf_err := hp_errno ps, hf_method := method_number (hp_method ps),
                  hf_content_length := hp_content_length ps\<rparr>, pf_header_completed := True\<rparr>
      in Some (if \<not> pf_allow_body u then 1 else 0, u))"

definition message_begin_cb :: "parser_fields http_cb" where
  "message_begin_cb ps u = (if pf_completed u then Some (1, u) else Some (0, Parser_reset u))"

definition message_complete_cb :: "parser_fields http_cb" where
  "message_complete_cb ps u = Some (0, u\<lparr>pf_completed := True\<rparr>)"

definition Parser_settings :: "parser_fields http_parser_settings" where
  "Parser_settings =
     \<lparr>on_message_begin = Some message_begin_cb, on_url = Some url_cb, on_status = None,
      on_header_field = Some header_field_cb, on_header_value = Some header_value_cb,
      on_headers_complete = Some header_complete_cb, on_body = Some body_cb,
      on_message_complete = Some message_complete_cb, on_chunk_header = None,
      on_chunk_complete = None\<rparr>"

subsection \<open>The parser object\<close>

record Parser =
  pa_parser :: http_parser
  pa_fields :: parser_fields

definition Parser_new :: "bool \<Rightarrow> bool \<Rightarrow> Parser" where
  "Parser_new is_request allow_body =
     \<lparr>pa_parser = http_parser_init (if is_request then HTTP_REQUEST else HTTP_RESPONSE),
      pa_fields = Parser_reset
        \<lparr>pf_allow_body = allow_body, pf_field = [], pf_value = [], pf_s = INIT,
         pf_header_completed = False, pf_completed = False, pf_cur_buf = None, pf_req = HttpFrame\<rparr>\<rparr>"

text \<open>\<open>None\<close>: an assertion failed.\<close>

definition Parser_execute :: "Parser \<Rightarrow> byte list \<Rightarrow> (nat \<times> Parser) option" where
  "Parser_execute p buf =
     (if pf_cur_buf (pa_fields p) \<noteq> None then None
      else map_option
             (\<lambda>(nparsed, ps, u). (nparsed, \<lparr>pa_parser = ps, pa_fields = u\<lparr>pf_cur_buf := None\<rparr>\<rparr>))
             (http_parser_execute Parser_settings (pa_parser p) ((pa_fields p)\<lparr>pf_cur_buf := Some buf\<rparr>) buf))"

definition moveResult :: "Parser \<Rightarrow> http_frame \<times> Parser" where
  "moveResult p =
     (let u = pa_fields p;
          u = (if pf_completed u
               then u\<lparr>pf_req := (pf_req u)\<lparr>hf_eof := True\<rparr>, pf_header_completed := False,
                      pf_completed := False\<rparr>
               else u)
      in (pf_req u, p\<lparr>pa_fields := u\<lparr>pf_req := HttpFrame\<rparr>\<rparr>))"

subsection \<open>The decoders\<close>

text \<open>\<open>IOBufQueue::empty\<close>: there is no buffer, or no buffer of the chain has a byte.\<close>

definition bufs_empty :: "byte list list \<Rightarrow> bool" where
  "bufs_empty q \<longleftrightarrow> list_all (\<lambda>b. b = []) q"

type_synonym 'a decode_result = "'a outcome \<times> Parser \<times> byte list list"

fun request_loop :: "Parser \<Rightarrow> byte list list \<Rightarrow> unit decode_result" where
  "request_loop p [] = (Ret (), p, [])"
| "request_loop p (front # q) =
     (if bufs_empty (front # q) then (Ret (), p, front # q)
      else case Parser_execute p front of
             None \<Rightarrow> (Abort, p, q)
           | Some (nparsed, p) \<Rightarrow>
               if hp_upgrade (pa_parser p) then (Throw (IOError ''upgrade unsupported''), p, q)
               else if nparsed \<noteq> length front then (Throw (IOError ''invalid http request''), p, q)
               else request_loop p q)"

fun response_loop :: "Parser \<Rightarrow> byte list list \<Rightarrow> unit decode_result" where
  "response_loop p [] = (Ret (), p, [])"
| "response_loop p (front # q) =
     (if bufs_empty (front # q) then (Ret (), p, front # q)
      else case Parser_execute p front of
             None \<Rightarrow> (Abort, p, q)
           | Some (nparsed, p) \<Rightarrow>
               if nparsed \<noteq> length front then (Throw (IOError ''invalid http response''), p, q)
               else response_loop p q)"

text \<open>The end of both \<open>decode\<close> functions.\<close>

fun take_result :: "unit decode_result \<Rightarrow> http_frame option decode_result" where
  "take_result (Ret _, p, q) =
     (if pf_completed (pa_fields p)
      then case moveResult p of (f, p') \<Rightarrow> (Ret (Some f), p', q)
      else (Ret None, p, q))"
| "take_result (Throw e, p, q) = (Throw e, p, q)"
| "take_result (Abort, p, q) = (Abort, p, q)"

definition HttpV1RequestDecoder_decode :: "Parser \<Rightarrow> byte list list \<Rightarrow> http_frame option decode_result" where
  "HttpV1RequestDecoder_decode p buf = take_result (request_loop p buf)"

definition HttpV1ResponseDecoder_decode :: "Parser \<Rightarrow> byte list list \<Rightarrow> http_frame option decode_result" where
  "HttpV1ResponseDecoder_decode p buf = take_result (response_loop p buf)"

text \<open>\<open>DecoderBase::decodeEof\<close>.\<close>

definition decodeEof ::
    "(Parser \<Rightarrow> byte list list \<Rightarrow> 'a option decode_result) \<Rightarrow> Parser \<Rightarrow> byte list list \<Rightarrow> 'a decode_result" where
  "decodeEof decode p buf =
     (case decode p buf of
        (Ret (Some v), p, q) \<Rightarrow> (Ret v, p, q)
      | (Ret None, p, q) \<Rightarrow> (Throw (IOError ''decoder eof''), p, q)
      | (Throw e, p, q) \<Rightarrow> (Throw e, p, q)
      | (Abort, p, q) \<Rightarrow> (Abort, p, q))"

subsection \<open>The encoders\<close>

fun decimal_digits :: "nat \<Rightarrow> string" where
  "decimal_digits n =
     (if n < 10 then [''0123456789'' ! n] else decimal_digits (n div 10) @ [''0123456789'' ! (n mod 10)])"

declare decimal_digits.simps [simp del]

datatype EncoderLengthMode = UnknownMode | ContentLengthMode | ChunkedMode

definition header_lines :: "(byte list \<times> byte list) list \<Rightarrow> byte list" where
  "header_lines hs = concat (map (\<lambda>(k, v). k @ http_bytes '': '' @ v @ http_bytes crlf) hs)"

definition getHttpStatusLine :: "nat \<Rightarrow> string option" where
  "getHttpStatusLine n = (if n < 100 \<or> 511 < n then None else map_of http_status_map n)"

definition HttpV1ResponseEncoder_encode ::
    "(byte list \<times> byte list) list \<Rightarrow> http_frame \<Rightarrow> byte list \<Rightarrow> (unit outcome \<times> byte list)" where
  "HttpV1ResponseEncoder_encode traversal out buf =
     (case getHttpStatusLine (hf_http_errno out) of
        None \<Rightarrow> (Throw (IOError ''invalid http response code''), buf)
      | Some error_line \<Rightarrow>
          (Ret (), buf @ http_bytes (''HTTP/1.1 '' @ decimal_digits (hf_http_errno out) @ '' '' @ error_line @ crlf)
            @ header_lines traversal
            @ (if \<not> bufs_empty (hf_body out)
               then http_bytes (''Content-Length: '' @ decimal_digits (length (concat (hf_body out))) @ crlf)
               else [])
            @ (if hf_headers out (http_bytes ''Connection'') = None
               then http_bytes (''Connection: keep-alive'' @ crlf) else [])
            @ http_bytes crlf @ concat (hf_body out)))"

definition HttpV1RequestEncoder_encode ::
    "EncoderLengthMode \<Rightarrow> (byte list \<times> byte list) list \<Rightarrow> http_frame \<Rightarrow> byte list \<Rightarrow> byte list" where
  "HttpV1RequestEncoder_encode mode traversal out buf =
     buf @ http_bytes (http_method_str (hf_method out) @ '' '') @ hf_path out
       @ http_bytes ('' HTTP/1.1'' @ crlf) @ header_lines traversal
       @ (if mode = ContentLengthMode \<and> \<not> bufs_empty (hf_body out)
             \<and> hf_headers out (http_bytes ''Content-Length'') = None
          then http_bytes (''Content-Length: '' @ decimal_digits (length (concat (hf_body out))) @ crlf)
          else [])
       @ http_bytes crlf @ concat (hf_body out)"

subsection \<open>The parser object keeps the contract of its callbacks\<close>

text \<open>
  While \<open>execute\<close> runs, \<open>cur_buf_\<close> is the buffer being parsed; a value is delivered only after
  a field, when \<open>s_\<close> is not \<open>INIT\<close>.
\<close>

definition parsing :: "byte list \<Rightarrow> parser_fields \<Rightarrow> bool" where
  "parsing data u \<longleftrightarrow> pf_cur_buf u = Some data"

definition in_header :: "byte list \<Rightarrow> parser_fields \<Rightarrow> bool" where
  "in_header data u \<longleftrightarrow> pf_cur_buf u = Some data \<and> pf_s u \<noteq> INIT"

lemmas callback_defs =
  message_begin_cb_def url_cb_def header_field_cb_def header_value_cb_def header_complete_cb_def
  body_cb_def message_complete_cb_def store_header_def Parser_reset_def

interpretation hp: http_client Parser_settings data "parsing data" "in_header data"
  by unfold_locales
    (auto simp: Parser_settings_def callback_defs parsing_def in_header_def Let_def
      split: parser_state.splits)

text \<open>Between two calls of \<open>execute\<close>.\<close>

definition Parser_ok :: "Parser \<Rightarrow> bool" where
  "Parser_ok p \<longleftrightarrow> pf_cur_buf (pa_fields p) = None
     \<and> between_ok (\<lambda>_. True) (\<lambda>u. pf_s u \<noteq> INIT) (pa_parser p) (pa_fields p)"

lemma between_parsing:
  "between_ok (parsing data) (in_header data) ps u \<longleftrightarrow>
     hp_errno ps \<noteq> HPE_OK
     \<or> pf_cur_buf u = Some data \<and> between_ok (\<lambda>_. True) (\<lambda>u. pf_s u \<noteq> INIT) ps u"
  by (auto simp: between_ok_def client_ok_def parsing_def in_header_def)

lemma between_cur_buf [simp]:
  "between_ok (\<lambda>_. True) (\<lambda>u. pf_s u \<noteq> INIT) ps (u\<lparr>pf_cur_buf := b\<rparr>)
     = between_ok (\<lambda>_. True) (\<lambda>u. pf_s u \<noteq> INIT) ps u"
  by (simp add: between_ok_def client_ok_def)

lemma Parser_new_ok: "Parser_ok (Parser_new is_request allow_body)"
  by (simp add: Parser_ok_def Parser_new_def Parser_reset_def init_between)

lemma Parser_execute_ok:
  assumes "Parser_ok p"
  obtains n p' where "Parser_execute p buf = Some (n, p')" "Parser_ok p'"
    "n \<le> length buf \<or> buf = [] \<and> n = 1"
    "hp_errno (pa_parser p') = HPE_OK \<longrightarrow> n = length buf \<or> hp_upgrade (pa_parser p')"
proof -
  let ?u = "(pa_fields p)\<lparr>pf_cur_buf := Some buf\<rparr>"
  have b: "between_ok (parsing buf) (in_header buf) (pa_parser p) ?u"
    using assms by (simp add: between_parsing Parser_ok_def)
  obtain n ps' u' where e: "http_parser_execute Parser_settings (pa_parser p) ?u buf = Some (n, ps', u')"
    "between_ok (parsing buf) (in_header buf) ps' u'" "n \<le> length buf \<or> buf = [] \<and> n = 1"
    "hp_errno ps' = HPE_OK \<longrightarrow> n = length buf \<or> hp_upgrade ps'"
    using hp.execute_ok [OF b] by blast
  have "between_ok (\<lambda>_. True) (\<lambda>u. pf_s u \<noteq> INIT) ps' u'"
    using e(2) by (auto simp: between_parsing)
  with e assms show thesis
    by (intro that [of n "\<lparr>pa_parser = ps', pa_fields = u'\<lparr>pf_cur_buf := None\<rparr>\<rparr>"])
      (simp_all add: Parser_execute_def Parser_ok_def)
qed

lemma moveResult_ok: "Parser_ok p \<Longrightarrow> Parser_ok (snd (moveResult p))"
  by (auto simp: Parser_ok_def moveResult_def Let_def between_ok_def client_ok_def)

subsection \<open>The decoders never abort\<close>

text \<open>
  What a decoder may do with a queue: return with the queue empty, or throw one of its three
  errors, after the parser reported an error or an upgrade or was given an empty buffer.
\<close>

definition decoded_ok :: "byte list list \<Rightarrow> 'a decode_result \<Rightarrow> bool" where
  "decoded_ok buf r \<longleftrightarrow>
     (case r of (res, p, q) \<Rightarrow>
        Parser_ok p
        \<and> (case res of
             Ret v \<Rightarrow> bufs_empty q
           | Throw e \<Rightarrow>
               e \<in> {IOError ''upgrade unsupported'', IOError ''invalid http request'',
                    IOError ''invalid http response''}
               \<and> (hp_errno (pa_parser p) \<noteq> HPE_OK \<or> hp_upgrade (pa_parser p) \<or> [] \<in> set buf)
           | Abort \<Rightarrow> False))"

lemma decoded_ok_tail: "decoded_ok q r \<Longrightarrow> decoded_ok (b # q) r"
  by (auto simp: decoded_ok_def split: outcome.splits)

lemma request_loop_ok: "Parser_ok p \<Longrightarrow> decoded_ok buf (request_loop p buf)"
proof (induction buf arbitrary: p)
  case Nil
  then show ?case by (simp add: decoded_ok_def bufs_empty_def)
next
  case (Cons front q)
  obtain n p' where e: "Parser_execute p front = Some (n, p')" "Parser_ok p'"
    "hp_errno (pa_parser p') = HPE_OK \<longrightarrow> n = length front \<or> hp_upgrade (pa_parser p')"
    using Parser_execute_ok [OF Cons.prems] by metis
  show ?case
    using e Cons.prems decoded_ok_tail [OF Cons.IH [OF e(2)]]
    by (auto simp: decoded_ok_def)
qed

lemma response_loop_ok: "Parser_ok p \<Longrightarrow> decoded_ok buf (response_loop p buf)"
proof (induction buf arbitrary: p)
  case Nil
  then show ?case by (simp add: decoded_ok_def bufs_empty_def)
next
  case (Cons front q)
  obtain n p' where e: "Parser_execute p front = Some (n, p')" "Parser_ok p'"
    "hp_errno (pa_parser p') = HPE_OK \<longrightarrow> n = length front \<or> hp_upgrade (pa_parser p')"
    using Parser_execute_ok [OF Cons.prems] by metis
  show ?case
    using e Cons.prems decoded_ok_tail [OF Cons.IH [OF e(2)]]
    by (auto simp: decoded_ok_def)
qed

lemma take_result_ok:
  assumes "decoded_ok buf r"
  shows "decoded_ok buf (take_result r)"
proof (cases r)
  case (fields res p q)
  then show ?thesis
    using assms moveResult_ok [of p] by (cases res) (auto simp: decoded_ok_def split: prod.split)
qed

definition http_decode :: "bool \<Rightarrow> Parser \<Rightarrow> byte list list \<Rightarrow> http_frame option decode_result" where
  "http_decode is_request p buf =
     (if is_request then HttpV1RequestDecoder_decode p buf else HttpV1ResponseDecoder_decode p buf)"

lemma http_decode_ok: "Parser_ok p \<Longrightarrow> decoded_ok buf (http_decode is_request p buf)"
  by (simp add: http_decode_def HttpV1RequestDecoder_decode_def HttpV1ResponseDecoder_decode_def
      take_result_ok request_loop_ok response_loop_ok)

text \<open>The decoders that the constructor and earlier calls produce, thrown errors included.\<close>

inductive decoder_reachable :: "bool \<Rightarrow> Parser \<Rightarrow> bool" for is_request where
  fresh: "decoder_reachable is_request (Parser_new is_request True)"
| decode: "decoder_reachable is_request p \<Longrightarrow> http_decode is_request p buf = (res, p', q) \<Longrightarrow>
    decoder_reachable is_request p'"

lemma decoder_reachable_ok: "decoder_reachable is_request p \<Longrightarrow> Parser_ok p"
proof (induction rule: decoder_reachable.induct)
  case fresh
  show ?case by (rule Parser_new_ok)
next
  case (decode p buf res p' q)
  then show ?case using http_decode_ok [of p buf is_request] by (simp add: decoded_ok_def)
qed

text \<open>
  C32 --- Whatever bytes arrive, in whatever buffers and over however many calls, the request
  and the response decoder never abort: none of the assertions of \<open>http::Parser\<close>'s callbacks
  and of \<open>http_parser.c\<close> fails.  A call that returns has drained the queue; a call that throws
  throws one of the three documented errors, and only when the parser reported an error or an
  upgrade, or the queue held an empty buffer.
\<close>

theorem http_decoders_never_abort:
  assumes "decoder_reachable is_request p"
  shows "\<exists>res p' q. http_decode is_request p buf = (res, p', q)
    \<and> (case res of
         Ret v \<Rightarrow> bufs_empty q
       | Throw e \<Rightarrow>
           e \<in> {IOError ''upgrade unsupported'', IOError ''invalid http request'',
                IOError ''invalid http response''}
           \<and> (hp_errno (pa_parser p') \<noteq> HPE_OK \<or> hp_upgrade (pa_parser p') \<or> [] \<in> set buf)
       | Abort \<Rightarrow> False)"
  using http_decode_ok [OF decoder_reachable_ok [OF assms], of buf is_request]
  by (cases "http_decode is_request p buf") (auto simp: decoded_ok_def)

theorem http_decoders_never_abort_witness:
  "\<exists>res p' q. http_decode True (Parser_new True True) [http_bytes (''GE'' @ crlf), [], [0xff]] = (res, p', q)
    \<and> res \<noteq> Abort"
proof -
  obtain res p' q where r: "http_decode True (Parser_new True True) [http_bytes (''GE'' @ crlf), [], [0xff]] = (res, p', q)"
    and "case res of Ret v \<Rightarrow> bufs_empty q | Throw e \<Rightarrow> True | Abort \<Rightarrow> False"
    using http_decoders_never_abort [OF decoder_reachable.fresh [of True],
        of "[http_bytes (''GE'' @ crlf), [], [0xff]]"] by (force split: outcome.splits)
  then have "res \<noteq> Abort" by auto
  with r show ?thesis by blast
qed

subsection \<open>Messages\<close>

lemmas http_codec_eval =
  http_eval callback_defs Parser_settings_def Parser_new_def Parser_execute_def moveResult_def
  HttpFrame_def HttpV1RequestDecoder_decode_def HttpV1ResponseDecoder_decode_def bufs_empty_def
  method_number_def http_methods_def

lemmas http_encode_eval =
  HttpV1ResponseEncoder_encode_def HttpV1RequestEncoder_encode_def getHttpStatusLine_def
  http_status_map_def header_lines_def decimal_digits.simps http_method_str_def



end
