(* ===== verification/Cryptlite.thy ===== *)
theory Cryptlite
  imports Bytes
begin

unbundle bit_operations_syntax

text \<open>
  The two classes of \<open>src/http/cryptlite\<close> that the WebSocket handshake uses: the incremental
  \<open>sha1\<close> object, shown equal to the hash function of FIPS 180 on whatever pieces it is fed,
  and \<open>base64\<close>, whose decoder is shown to undo its encoder.
\<close>

subsection \<open>The sha1 object\<close>

record sha1 =
  sh_hash :: "32 word list"
  sh_length_low :: "32 word"
  sh_length_high :: "32 word"
  sh_index :: nat
  sh_block :: "byte list"
  sh_computed :: bool
  sh_corrupted :: bool

definition SHA1_ROTL :: "nat \<Rightarrow> 32 word \<Rightarrow> 32 word" where
  "SHA1_ROTL bits w = push_bit bits w OR drop_bit (32 - bits) w"

definition SHA1_CH :: "32 word \<Rightarrow> 32 word \<Rightarrow> 32 word \<Rightarrow> 32 word" where
  "SHA1_CH x y z = (x AND (y XOR z)) XOR z"

definition SHA1_MAJ :: "32 word \<Rightarrow> 32 word \<Rightarrow> 32 word \<Rightarrow> 32 word" where
  "SHA1_MAJ x y z = (x AND (y OR z)) OR (y AND z)"

definition SHA1_PARITY :: "32 word \<Rightarrow> 32 word \<Rightarrow> 32 word \<Rightarrow> 32 word" where
  "SHA1_PARITY x y z = x XOR y XOR z"

text \<open>The macro gives the new value of \<open>corrupted_\<close>, which is also in the object.\<close>

definition SHA1_ADD_LENGTH :: "sha1 \<Rightarrow> 32 word \<Rightarrow> sha1" where
  "SHA1_ADD_LENGTH s len =
     (let temp = sh_length_low s; low = temp + len; s = s\<lparr>sh_length_low := low\<rparr> in
      if low < temp
      then let high = sh_length_high s + 1 in s\<lparr>sh_length_high := high, sh_corrupted := (high = 0)\<rparr>
      else s\<lparr>sh_corrupted := False\<rparr>)"

definition sha1_init_hash :: "32 word list" where
  "sha1_init_hash = [0x67452301, 0xEFCDAB89, 0x98BADCFE, 0x10325476, 0xC3D2E1F0]"

text \<open>The constructor leaves the block as it finds it.\<close>

definition sha1_new :: "byte list \<Rightarrow> sha1" where
  "sha1_new mem = \<lparr>sh_hash = sha1_init_hash, sh_length_low = 0, sh_length_high = 0, sh_index = 0,
     sh_block = mem, sh_computed = False, sh_corrupted = False\<rparr>"

definition sha1_reset :: "sha1 \<Rightarrow> sha1" where
  "sha1_reset s = s\<lparr>sh_computed := False, sh_corrupted := False, sh_length_low := 0,
     sh_length_high := 0, sh_index := 0, sh_hash := sha1_init_hash\<rparr>"

text \<open>
  \<open>process_message_block\<close>: the words of the block, the schedule (\<open>W[t]\<close> for \<open>t\<close> from 16 to 79
  is one line of the source each), and the eighty rounds, written out in the source.
\<close>

definition sha1_word :: "byte list \<Rightarrow> nat \<Rightarrow> 32 word" where
  "sha1_word blk t =
     push_bit 24 (ucast (blk ! (4 * t))) OR push_bit 16 (ucast (blk ! (4 * t + 1)))
     OR push_bit 8 (ucast (blk ! (4 * t + 2))) OR ucast (blk ! (4 * t + 3))"

definition sha1_extend :: "nat \<Rightarrow> 32 word list \<Rightarrow> 32 word list" where
  "sha1_extend t W = W @ [SHA1_ROTL 1 (W ! (t - 3) XOR W ! (t - 8) XOR W ! (t - 14) XOR W ! (t - 16))]"

definition sha1_W :: "byte list \<Rightarrow> 32 word list" where
  "sha1_W blk = fold sha1_extend [16..<80] (map (sha1_word blk) [0..<16])"

definition sha1_K :: "32 word list" where
  "sha1_K = [0x5A827999, 0x6ED9EBA1, 0x8F1BBCDC, 0xCA62C1D6]"

type_synonym sha1_vars = "32 word \<times> 32 word \<times> 32 word \<times> 32 word \<times> 32 word"

definition sha1_round :: "32 word list \<Rightarrow> nat \<Rightarrow> sha1_vars \<Rightarrow> sha1_vars" where
  "sha1_round W t = (\<lambda>(A, B, C, D, E).
     let f = (if t < 20 then SHA1_CH B C D
              else if t < 40 then SHA1_PARITY B C D
              else if t < 60 then SHA1_MAJ B C D
              else SHA1_PARITY B C D);
         temp = SHA1_ROTL 5 A + f + E + W ! t + sha1_K ! (t div 20)
     in (temp, A, SHA1_ROTL 30 B, C, D))"

definition process_message_block :: "sha1 \<Rightarrow> sha1" where
  "process_message_block s =
     (let h = sh_hash s;
          (A, B, C, D, E) = fold (sha1_round (sha1_W (sh_block s))) [0..<80] (h ! 0, h ! 1, h ! 2, h ! 3, h ! 4)
      in s\<lparr>sh_hash := [h ! 0 + A, h ! 1 + B, h ! 2 + C, h ! 3 + D, h ! 4 + E], sh_index := 0\<rparr>)"

definition sha1_put :: "byte \<Rightarrow> sha1 \<Rightarrow> sha1" where
  "sha1_put b s = s\<lparr>sh_block := (sh_block s)[sh_index s := b], sh_index := sh_index s + 1\<rparr>"

text \<open>One turn of the loop of \<open>input\<close>.\<close>

definition sha1_input_byte :: "byte \<Rightarrow> sha1 \<Rightarrow> sha1" where
  "sha1_input_byte b s =
     (let s = SHA1_ADD_LENGTH (sha1_put b s) 8 in
      if \<not> sh_corrupted s \<and> sh_index s = 64 then process_message_block s else s)"

fun sha1_input_loop :: "sha1 \<Rightarrow> byte list \<Rightarrow> sha1" where
  "sha1_input_loop s [] = s"
| "sha1_input_loop s (b # bs) =
     (if sh_corrupted s then s else sha1_input_loop (sha1_input_byte b s) bs)"

definition sha1_input :: "sha1 \<Rightarrow> byte list \<Rightarrow> sha1" where
  "sha1_input s message =
     (if sh_computed s \<or> sh_corrupted s \<or> message = [] then s else sha1_input_loop s message)"

text \<open>\<open>while (message_block_index_ < n) message_block_[message_block_index_++] = 0\<close>\<close>

function sha1_zeros :: "nat \<Rightarrow> sha1 \<Rightarrow> sha1" where
  "sha1_zeros n s = (if sh_index s < n then sha1_zeros n (sha1_put 0 s) else s)"
  by pat_completeness auto

termination sha1_zeros
  by (relation "measure (\<lambda>(n, s). n - sh_index s)") (auto simp: sha1_put_def)

declare sha1_zeros.simps [simp del]

definition be_bytes :: "32 word \<Rightarrow> byte list" where
  "be_bytes w = [ucast (drop_bit 24 w), ucast (drop_bit 16 w), ucast (drop_bit 8 w), ucast w]"

definition pad_message :: "byte \<Rightarrow> sha1 \<Rightarrow> sha1" where
  "pad_message pad_byte s =
     (let s = (if 56 \<le> sh_index s
               then process_message_block (sha1_zeros 64 (sha1_put pad_byte s))
               else sha1_put pad_byte s);
          s = sha1_zeros 56 s
      in process_message_block
           (s\<lparr>sh_block := take 56 (sh_block s) @ be_bytes (sh_length_high s) @ be_bytes (sh_length_low s)\<rparr>))"

definition finalize :: "byte \<Rightarrow> sha1 \<Rightarrow> sha1" where
  "finalize pad_byte s =
     (pad_message pad_byte s)\<lparr>sh_block := replicate 64 0, sh_length_low := 0, sh_length_high := 0,
        sh_computed := True\<rparr>"

definition final_bits :: "byte \<Rightarrow> nat \<Rightarrow> sha1 \<Rightarrow> sha1" where
  "final_bits message_bits len s =
     (if len = 0 then s
      else let s = (if sh_computed s \<or> 8 \<le> len then s\<lparr>sh_corrupted := True\<rparr> else s) in
        if sh_corrupted s then s
        else finalize ((message_bits AND [0x00, 0x80, 0xC0, 0xE0, 0xF0, 0xF8, 0xFC, 0xFE] ! len)
               OR [0x80, 0x40, 0x20, 0x10, 0x08, 0x04, 0x02, 0x01] ! len)
               (SHA1_ADD_LENGTH s (of_nat len)))"

text \<open>\<open>result\<close> leaves the array \<open>digest\<close> as it is when the object is corrupted.\<close>

definition sha1_result :: "sha1 \<Rightarrow> byte list \<Rightarrow> byte list \<times> sha1" where
  "sha1_result s digest =
     (if sh_corrupted s then (digest, s)
      else let s = (if sh_computed s then s else finalize 0x80 s)
           in (concat (map be_bytes (sh_hash s)), s))"

definition sha1_hash :: "byte list \<Rightarrow> byte list \<Rightarrow> byte list \<Rightarrow> byte list" where
  "sha1_hash mem digest s = fst (sha1_result (sha1_input (sha1_new mem) s) digest)"

subsection \<open>The hash function of the standard\<close>

text \<open>
  Reference: FIPS 180-4.  The message schedule is a recursive function, the choice and majority
  functions are those of section 4.1.1, the padding is the one of section 5.1.1, and the
  message is hashed block by block.
\<close>

fun fips_W :: "byte list \<Rightarrow> nat \<Rightarrow> 32 word" where
  "fips_W blk t =
     (if t < 16
      then word_of_int (foldl (\<lambda>a b. 256 * a + uint b) 0 (take 4 (drop (4 * t) blk)))
      else word_rotl 1 (fips_W blk (t - 3) XOR fips_W blk (t - 8) XOR fips_W blk (t - 14) XOR fips_W blk (t - 16)))"

declare fips_W.simps [simp del]

definition fips_f :: "nat \<Rightarrow> 32 word \<Rightarrow> 32 word \<Rightarrow> 32 word \<Rightarrow> 32 word" where
  "fips_f t x y z =
     (if t < 20 then (x AND y) XOR (NOT x AND z)
      else if 40 \<le> t \<and> t < 60 then (x AND y) XOR (x AND z) XOR (y AND z)
      else x XOR y XOR z)"

definition fips_K :: "nat \<Rightarrow> 32 word" where
  "fips_K t = (if t < 20 then 0x5A827999 else if t < 40 then 0x6ED9EBA1
     else if t < 60 then 0x8F1BBCDC else 0xCA62C1D6)"

primrec fips_rounds :: "byte list \<Rightarrow> sha1_vars \<Rightarrow> nat \<Rightarrow> sha1_vars" where
  "fips_rounds blk v 0 = v"
| "fips_rounds blk v (Suc t) =
     (case fips_rounds blk v t of (a, b, c, d, e) \<Rightarrow>
        (word_rotl 5 a + fips_f t b c d + e + fips_K t + fips_W blk t, a, word_rotl 30 b, c, d))"

definition fips_compress :: "sha1_vars \<Rightarrow> byte list \<Rightarrow> sha1_vars" where
  "fips_compress v blk =
     (case (v, fips_rounds blk v 80) of ((h0, h1, h2, h3, h4), (a, b, c, d, e)) \<Rightarrow>
        (h0 + a, h1 + b, h2 + c, h3 + d, h4 + e))"

fun blocks64 :: "byte list \<Rightarrow> byte list list" where
  "blocks64 xs = (if length xs < 64 then [] else take 64 xs # blocks64 (drop 64 xs))"

declare blocks64.simps [simp del]

text \<open>The big-endian bytes of a number below \<open>256 ^ k\<close>.\<close>

primrec big_endian :: "nat \<Rightarrow> nat \<Rightarrow> byte list" where
  "big_endian 0 n = []"
| "big_endian (Suc k) n = big_endian k (n div 256) @ [of_nat n]"

definition fips_padded :: "byte list \<Rightarrow> byte list" where
  "fips_padded m = m @ [0x80] @ replicate ((119 - length m mod 64) mod 64) 0 @ big_endian 8 (8 * length m)"

definition fips_sha1 :: "byte list \<Rightarrow> byte list" where
  "fips_sha1 m =
     (case foldl fips_compress (0x67452301, 0xEFCDAB89, 0x98BADCFE, 0x10325476, 0xC3D2E1F0)
             (blocks64 (fips_padded m)) of
        (h0, h1, h2, h3, h4) \<Rightarrow> concat (map (\<lambda>w. big_endian 4 (unat w)) [h0, h1, h2, h3, h4]))"

subsection \<open>One block\<close>

lemma rotl_eq: "0 < n \<Longrightarrow> n < 32 \<Longrightarrow> SHA1_ROTL n w = word_rotl n w"
proof (rule bit_word_eqI)
  fix i assume n: "0 < n" "n < 32" and "i < LENGTH(32)"
  then have i: "i < 32" by simp
  have "(i + (32 - n)) mod 32 = (if n \<le> i then i - n else 32 + i - n)"
    using n i by (auto simp: mod_if)
  then show "bit (SHA1_ROTL n w) i = bit (word_rotl n w) i"
    using n i by (auto simp: SHA1_ROTL_def bit_simps bit_word_rotl_iff not_le bit_imp_le_length
        dest: bit_imp_le_length)
qed

lemma sha1_functions:
  "SHA1_CH x y z = (x AND y) XOR (NOT x AND z)"
  "SHA1_MAJ x y z = (x AND y) XOR (x AND z) XOR (y AND z)"
  by (rule bit_word_eqI; auto simp: SHA1_CH_def SHA1_MAJ_def bit_simps)+

lemma byte_bit [simp]: "8 \<le> i \<Longrightarrow> \<not> bit (b :: byte) i"
  using bit_imp_le_length [of b i] by auto

lemma sha1_word_sum:
  fixes a b c d :: byte
  shows "push_bit 24 (ucast a) OR push_bit 16 (ucast b) OR push_bit 8 (ucast c) OR ucast d
    = (2 ^ 24 * ucast a + 2 ^ 16 * ucast b + 2 ^ 8 * ucast c + ucast d :: 32 word)"
proof -
  have 1: "push_bit 8 (ucast c) OR ucast d = (push_bit 8 (ucast c) + ucast d :: 32 word)"
    by (rule disjunctive_add [symmetric]) (auto simp: bit_simps)
  have 2: "push_bit 16 (ucast b) OR push_bit 8 (ucast c) OR ucast d
      = (push_bit 16 (ucast b) + (push_bit 8 (ucast c) OR ucast d) :: 32 word)"
    by (rule disjunctive_add [symmetric]) (auto simp: bit_simps)
  have 3: "push_bit 24 (ucast a) OR push_bit 16 (ucast b) OR push_bit 8 (ucast c) OR ucast d
      = (push_bit 24 (ucast a) + (push_bit 16 (ucast b) OR push_bit 8 (ucast c) OR ucast d) :: 32 word)"
    by (rule disjunctive_add [symmetric]) (auto simp: bit_simps)
  show ?thesis
    unfolding 3 unfolding 2 unfolding 1 by (simp add: push_bit_eq_mult mult.commute)
qed

lemma take4: "4 * t + 4 \<le> length xs \<Longrightarrow>
    take 4 (drop (4 * t) xs) = [xs ! (4 * t), xs ! (4 * t + 1), xs ! (4 * t + 2), xs ! (4 * t + 3)]"
  by (simp add: list_eq_iff_nth_eq nth_Cons' less_Suc_eq numeral_eq_Suc)

lemma sha1_word_eq:
  assumes "length blk = 64" "t < 16"
  shows "sha1_word blk t = fips_W blk t"
  using assms
  by (simp add: sha1_word_def sha1_word_sum fips_W.simps [of blk t] take4 distrib_left add.commute add.assoc)

lemma sha1_W_eq:
  assumes "length blk = 64" "n \<le> 64"
  shows "fold sha1_extend [16..<16 + n] (map (sha1_word blk) [0..<16]) = map (fips_W blk) [0..<16 + n]"
  using assms(2)
proof (induction n)
  case 0
  then show ?case using sha1_word_eq [OF assms(1)] by simp
next
  case (Suc n)
  have W: "fips_W blk (16 + n) = SHA1_ROTL 1 (fips_W blk (13 + n) XOR fips_W blk (8 + n) XOR fips_W blk (2 + n) XOR fips_W blk n)"
    by (subst fips_W.simps) (simp add: rotl_eq)
  have upt: "[16..<16 + Suc n] = [16..<16 + n] @ [16 + n]" "[0..<16 + Suc n] = [0..<16 + n] @ [16 + n]"
    using upt_Suc_append [of 16 "16 + n"] upt_Suc_append [of 0 "16 + n"] by simp_all
  show ?case
    unfolding upt using Suc W by (simp add: sha1_extend_def nth_append del: upt_Suc)
qed

lemma sha1_round_eq:
  assumes "t < 80" "W = map (fips_W blk) [0..<80]"
  shows "sha1_round W t (a, b, c, d, e) =
    (word_rotl 5 a + fips_f t b c d + e + fips_K t + fips_W blk t, a, word_rotl 30 b, c, d)"
proof -
  have K: "sha1_K ! (t div 20) = fips_K t"
  proof -
    consider "t div 20 = 0" "t < 20" | "t div 20 = 1" "20 \<le> t" "t < 40" | "t div 20 = 2" "40 \<le> t" "t < 60"
      | "t div 20 = 3" "60 \<le> t"
      using assms(1) by linarith
    then show ?thesis by cases (simp_all add: sha1_K_def fips_K_def)
  qed
  show ?thesis
    using assms unfolding sha1_round_def K
    by (simp add: Let_def rotl_eq fips_f_def sha1_functions SHA1_PARITY_def add.commute add.left_commute)
qed

lemma sha1_rounds_eq:
  assumes "W = map (fips_W blk) [0..<80]"
  shows "n \<le> 80 \<Longrightarrow> fold (sha1_round W) [0..<n] v = fips_rounds blk v n"
proof (induction n)
  case (Suc n)
  obtain a b c d e where f: "fips_rounds blk v n = (a, b, c, d, e)" by (cases "fips_rounds blk v n")
  show ?case using Suc f sha1_round_eq [OF _ assms, of n] by simp
qed simp

definition hash_list :: "sha1_vars \<Rightarrow> 32 word list" where
  "hash_list v = (case v of (a, b, c, d, e) \<Rightarrow> [a, b, c, d, e])"

lemma process_block:
  assumes "length (sh_block s) = 64" "sh_hash s = hash_list v"
  shows "process_message_block s = s\<lparr>sh_hash := hash_list (fips_compress v (sh_block s)), sh_index := 0\<rparr>"
proof -
  obtain a b c d e where v: "v = (a, b, c, d, e)" by (cases v)
  have "sha1_W (sh_block s) = map (fips_W (sh_block s)) [0..<80]"
    using sha1_W_eq [OF assms(1), of 64] by (simp add: sha1_W_def)
  then have "fold (sha1_round (sha1_W (sh_block s))) [0..<80] v = fips_rounds (sh_block s) v 80"
    by (rule sha1_rounds_eq) simp
  with assms(2) v show ?thesis
    by (simp add: process_message_block_def hash_list_def fips_compress_def Let_def split: prod.split)
qed

subsection \<open>The message\<close>

lemma byte_of_div: "k + 8 \<le> 32 \<Longrightarrow> (ucast (drop_bit k (of_nat n :: 32 word)) :: byte) = of_nat (n div 2 ^ k)"
  by (rule bit_word_eqI) (auto simp: bit_simps simp flip: drop_bit_eq_div)

lemma big_endian_4: "big_endian 4 n = [of_nat (n div 2 ^ 24), of_nat (n div 2 ^ 16), of_nat (n div 2 ^ 8), of_nat n]"
proof -
  have 4: "(4 :: nat) = Suc (Suc (Suc (Suc 0)))" by simp
  show ?thesis unfolding 4 by (simp add: div_mult2_eq [symmetric])
qed

lemma be_bytes_eq: "be_bytes (of_nat n) = big_endian 4 n"
  using byte_of_div [of 24 n] byte_of_div [of 16 n] byte_of_div [of 8 n] byte_of_div [of 0 n]
  by (simp add: be_bytes_def big_endian_4)

lemma be_bytes_unat: "be_bytes w = big_endian 4 (unat w)"
  using be_bytes_eq [of "unat w"] by simp

lemma length_big_endian [simp]: "length (big_endian k n) = k"
  by (induction k arbitrary: n) simp_all

lemma big_endian_8: "big_endian 8 n = big_endian 4 (n div 2 ^ 32) @ big_endian 4 n"
proof -
  have 8: "(8 :: nat) = Suc (Suc (Suc (Suc 4)))" by simp
  show ?thesis
    unfolding 8 big_endian.simps by (simp add: big_endian_4 [of n] div_mult2_eq [symmetric])
qed

lemma blocks64_append:
  "blocks64 (xs @ ys) = blocks64 xs @ blocks64 (drop (length xs - length xs mod 64) xs @ ys)"
proof (induction xs rule: blocks64.induct)
  case (1 xs)
  show ?case
  proof (cases "length xs < 64")
    case True
    then show ?thesis by (simp add: blocks64.simps [of xs])
  next
    case False
    then have m: "(length xs - 64) mod 64 = length xs mod 64"
      by (simp add: le_mod_geq)
    then have "length xs mod 64 \<le> length xs - 64"
      by (metis mod_less_eq_dividend)
    then have d: "drop (length xs - 64 - length xs mod 64) (drop 64 xs) = drop (length xs - length xs mod 64) xs"
      using False by (simp add: drop_drop)
    have "blocks64 (xs @ ys) = take 64 xs # blocks64 (drop 64 xs @ ys)"
      using False by (subst blocks64.simps) simp
    also have "\<dots> = take 64 xs # blocks64 (drop 64 xs) @ blocks64 (drop (length xs - length xs mod 64) xs @ ys)"
      using 1 [OF False] m d by simp
    finally show ?thesis
      using False by (simp add: blocks64.simps [of xs])
  qed
qed

lemma blocks64_one: "length xs = 64 \<Longrightarrow> blocks64 (xs @ ys) = xs # blocks64 ys"
  by (subst blocks64.simps) simp

lemma blocks64_short [simp]: "length xs < 64 \<Longrightarrow> blocks64 xs = []"
  by (subst blocks64.simps) simp

abbreviation fips_hash :: "sha1_vars \<Rightarrow> byte list \<Rightarrow> sha1_vars" where
  "fips_hash v xs \<equiv> foldl fips_compress v (blocks64 xs)"

definition fips_H0 :: sha1_vars where
  "fips_H0 = (0x67452301, 0xEFCDAB89, 0x98BADCFE, 0x10325476, 0xC3D2E1F0)"

text \<open>The object after it was fed \<open>xs\<close>.\<close>

definition sha1_rep :: "sha1 \<Rightarrow> byte list \<Rightarrow> bool" where
  "sha1_rep s xs \<longleftrightarrow>
     \<not> sh_computed s \<and> \<not> sh_corrupted s \<and> length (sh_block s) = 64
     \<and> sh_length_low s = of_nat (8 * length xs) \<and> sh_length_high s = of_nat (8 * length xs div 2 ^ 32)
     \<and> sh_index s = length xs mod 64
     \<and> take (length xs mod 64) (sh_block s) = drop (length xs - length xs mod 64) xs
     \<and> sh_hash s = hash_list (fips_hash fips_H0 xs)"

lemma sha1_rep_new: "length mem = 64 \<Longrightarrow> sha1_rep (sha1_new mem) []"
  by (simp add: sha1_rep_def sha1_new_def hash_list_def fips_H0_def sha1_init_hash_def)

lemma add_length:
  assumes "sh_length_low s = of_nat n" "sh_length_high s = of_nat (n div 2 ^ 32)" "n + k < 2 ^ 64" "k < 2 ^ 32"
  shows "SHA1_ADD_LENGTH s (of_nat k) = s\<lparr>sh_length_low := of_nat (n + k),
    sh_length_high := of_nat ((n + k) div 2 ^ 32), sh_corrupted := False\<rparr>"
proof -
  define low where "low = n mod 2 ^ 32"
  define high where "high = n div 2 ^ 32"
  have n: "n = high * 2 ^ 32 + low" "low < 2 ^ 32"
    by (simp_all add: low_def high_def)
  have u: "unat (of_nat n :: 32 word) = low" "unat (of_nat k :: 32 word) = k"
    using assms(4) by (simp_all add: unat_of_nat low_def)
  have "unat (of_nat n + of_nat k :: 32 word) = (low + k) mod 2 ^ 32"
    by (simp only: unat_word_ariths u) simp
  moreover have "(low + k) mod 2 ^ 32 = (if low + k < 2 ^ 32 then low + k else low + k - 2 ^ 32)"
    using n(2) assms(4) by (auto simp: mod_if)
  ultimately have less: "(of_nat n + of_nat k < (of_nat n :: 32 word)) \<longleftrightarrow> 2 ^ 32 \<le> low + k"
    using n(2) assms(4) unfolding word_less_nat_alt u by auto
  have div: "(n + k) div 2 ^ 32 = (if 2 ^ 32 \<le> low + k then Suc high else high)"
    using n assms(4) by (auto intro!: div_nat_eqI)
  have "high < 2 ^ 32" "2 ^ 32 \<le> low + k \<Longrightarrow> Suc high < 2 ^ 32"
    using n assms(3) by auto
  then have "2 ^ 32 \<le> low + k \<Longrightarrow> unat (of_nat (Suc high) :: 32 word) = Suc high"
    by (simp add: unat_of_nat del: of_nat_Suc)
  then have "2 ^ 32 \<le> low + k \<Longrightarrow> (of_nat (Suc high) :: 32 word) \<noteq> 0"
    by (metis nat.simps(3) unat_0)
  moreover have "sh_length_high s = of_nat high"
    using assms(2) by (simp only: high_def)
  ultimately show ?thesis
    using less div assms(1)
    by (cases s; cases "2 ^ 32 \<le> low + k") (simp_all add: SHA1_ADD_LENGTH_def Let_def add.commute)
qed

text \<open>One byte more.\<close>

lemma sha1_rep_byte:
  assumes s: "sha1_rep s xs" and len: "length xs + 1 < 2 ^ 61"
  shows "sha1_rep (sha1_input_byte b s) (xs @ [b])"
proof -
  define r where "r = length xs mod 64"
  define left where "left = drop (length xs - r) xs"
  have r: "r < 64" "length left = r"
    by (simp_all add: r_def left_def)
  define s1 where "s1 = sha1_put b s"
  define s2 where "s2 = SHA1_ADD_LENGTH s1 8"
  have blk: "take (Suc r) (sh_block s1) = left @ [b]" "length (sh_block s1) = 64" "sh_index s1 = Suc r"
    using s r(1) by (simp_all add: s1_def sha1_put_def sha1_rep_def r_def left_def take_Suc_conv_app_nth)
  have "sh_length_low s1 = of_nat (8 * length xs)" "sh_length_high s1 = of_nat (8 * length xs div 2 ^ 32)"
    using s by (simp_all add: s1_def sha1_put_def sha1_rep_def)
  then have s2: "s2 = s1\<lparr>sh_length_low := of_nat (8 * length xs + 8),
      sh_length_high := of_nat ((8 * length xs + 8) div 2 ^ 32), sh_corrupted := False\<rparr>"
    unfolding s2_def using add_length [of s1 "8 * length xs" 8] len by simp
  have blocks: "blocks64 (xs @ [b]) = blocks64 xs @ blocks64 (left @ [b])"
    unfolding left_def r_def by (rule blocks64_append)
  have hash: "sh_hash s2 = hash_list (fips_hash fips_H0 xs)" "\<not> sh_computed s2"
    using s by (simp_all add: s2 s1_def sha1_put_def sha1_rep_def)
  show ?thesis
  proof (cases "Suc r = 64")
    case True
    then have m: "length (xs @ [b]) mod 64 = 0"
      by (simp add: r_def mod_Suc)
    have "sh_block s2 = left @ [b]"
      using blk True by (simp add: s2)
    moreover have "blocks64 (left @ [b]) = [left @ [b]]"
      using blocks64_one [of "left @ [b]" "[]"] r True by simp
    ultimately show ?thesis
      using process_block [OF _ hash(1)] blocks blk hash True m r
      by (simp add: sha1_input_byte_def s1_def [symmetric] s2_def [symmetric])
        (simp add: s2 sha1_rep_def add.commute)
  next
    case False
    then have m: "length (xs @ [b]) mod 64 = Suc r"
      by (simp add: r_def mod_Suc)
    have "drop (length (xs @ [b]) - Suc r) (xs @ [b]) = left @ [b]"
      by (simp add: left_def r_def)
    then show ?thesis
      using False m r blk hash blocks
      by (simp add: sha1_input_byte_def s1_def [symmetric] s2_def [symmetric])
        (simp add: s2 sha1_rep_def add.commute)
  qed
qed

lemma sha1_rep_loop:
  "sha1_rep s xs \<Longrightarrow> length (xs @ ys) < 2 ^ 61 \<Longrightarrow> sha1_rep (sha1_input_loop s ys) (xs @ ys)"
proof (induction ys arbitrary: s xs)
  case (Cons b ys)
  have "sha1_rep (sha1_input_byte b s) (xs @ [b])"
    using Cons.prems by (intro sha1_rep_byte) simp_all
  then have "sha1_rep (sha1_input_loop (sha1_input_byte b s) ys) ((xs @ [b]) @ ys)"
    using Cons.prems by (intro Cons.IH) simp_all
  moreover have "\<not> sh_corrupted s" using Cons.prems by (simp add: sha1_rep_def)
  ultimately show ?case by simp
qed simp

lemma sha1_rep_input: "sha1_rep s xs \<Longrightarrow> length (xs @ ys) < 2 ^ 61 \<Longrightarrow> sha1_rep (sha1_input s ys) (xs @ ys)"
  using sha1_rep_loop [of s xs ys] by (auto simp: sha1_input_def sha1_rep_def)

lemma sha1_rep_pieces:
  "sha1_rep s xs \<Longrightarrow> length (xs @ concat pieces) < 2 ^ 61 \<Longrightarrow> sha1_rep (foldl sha1_input s pieces) (xs @ concat pieces)"
proof (induction pieces arbitrary: s xs)
  case (Cons p ps)
  have "sha1_rep (sha1_input s p) (xs @ p)"
    using Cons.prems by (intro sha1_rep_input) simp_all
  then show ?case
    using Cons.IH [of "sha1_input s p" "xs @ p"] Cons.prems by simp
qed simp

text \<open>The padding.\<close>

lemma sha1_zeros_eq:
  assumes "sh_index s \<le> n" "n \<le> length (sh_block s)"
  shows "sha1_zeros n s = s\<lparr>sh_block := take (sh_index s) (sh_block s) @ replicate (n - sh_index s) 0
    @ drop n (sh_block s), sh_index := n\<rparr>"
  using assms
proof (induction "n - sh_index s" arbitrary: s)
  case 0
  then show ?case by (cases s) (simp add: sha1_zeros.simps)
next
  case (Suc k)
  then have i: "sh_index s < n" by simp
  have "sha1_zeros n s = sha1_zeros n (sha1_put 0 s)"
    using i by (subst sha1_zeros.simps) simp
  also have "\<dots> = (sha1_put 0 s)\<lparr>sh_block := take (sh_index (sha1_put 0 s)) (sh_block (sha1_put 0 s))
      @ replicate (n - sh_index (sha1_put 0 s)) 0 @ drop n (sh_block (sha1_put 0 s)), sh_index := n\<rparr>"
    using Suc i by (intro Suc.hyps) (simp_all add: sha1_put_def)
  also have "take (sh_index (sha1_put 0 s)) (sh_block (sha1_put 0 s)) = take (sh_index s) (sh_block s) @ [0]"
    using i Suc.prems by (simp add: sha1_put_def take_Suc_conv_app_nth)
  also have "n - sh_index s = Suc (n - sh_index (sha1_put 0 s))"
    using i by (simp add: sha1_put_def)
  ultimately show ?case
    using i by (simp add: sha1_put_def)
qed

lemma sha1_put_take:
  assumes "sh_index s < length (sh_block s)"
  shows "take (Suc (sh_index s)) (sh_block (sha1_put b s)) = take (sh_index s) (sh_block s) @ [b]"
    "sh_index (sha1_put b s) = Suc (sh_index s)" "length (sh_block (sha1_put b s)) = length (sh_block s)"
  using assms by (simp_all add: sha1_put_def take_Suc_conv_app_nth)

lemma sha1_last_block:
  assumes "sh_index s \<le> 56" "length (sh_block s) = 64" "sh_hash s = hash_list v" "s' = sha1_zeros 56 s"
  shows "sh_hash (process_message_block (s'\<lparr>sh_block := take 56 (sh_block s') @ be_bytes h @ be_bytes l\<rparr>))
    = hash_list (fips_compress v (take (sh_index s) (sh_block s) @ replicate (56 - sh_index s) 0 @ be_bytes h @ be_bytes l))"
proof -
  have s': "sh_hash s' = hash_list v" "take 56 (sh_block s') = take (sh_index s) (sh_block s) @ replicate (56 - sh_index s) 0"
    using assms by (simp_all add: sha1_zeros_eq)
  have "length (be_bytes w) = 4" for w by (simp add: be_bytes_def)
  then show ?thesis
    using assms(1,2) s' by (subst process_block [where v = v]) simp_all
qed

lemma sha1_pad:
  assumes s: "sha1_rep s xs"
  shows "sh_hash (pad_message 0x80 s) = hash_list (fips_hash fips_H0 (fips_padded xs))"
proof -
  define r where "r = length xs mod 64"
  define left where "left = drop (length xs - r) xs"
  define v where "v = fips_hash fips_H0 xs"
  define lenb where "lenb = be_bytes (sh_length_high s) @ be_bytes (sh_length_low s)"
  have r: "r < 64" "length left = r" by (simp_all add: r_def left_def)
  have lenb: "lenb = big_endian 8 (8 * length xs)" "length lenb = 8"
    using s be_bytes_eq [of "8 * length xs"] be_bytes_eq [of "8 * length xs div 2 ^ 32"]
    by (simp_all only: lenb_def sha1_rep_def big_endian_8 length_append length_big_endian)
  have blocks: "fips_hash fips_H0 (fips_padded xs) = fips_hash v (left @ 0x80 # replicate ((119 - r) mod 64) 0 @ lenb)"
    unfolding fips_padded_def lenb(1) [symmetric] blocks64_append [of xs] v_def left_def r_def by simp
  define s1 where "s1 = sha1_put 0x80 s"
  have s1: "take (Suc r) (sh_block s1) = left @ [0x80]" "sh_index s1 = Suc r" "length (sh_block s1) = 64"
    "sh_hash s1 = hash_list v" "sh_length_high s1 = sh_length_high s" "sh_length_low s1 = sh_length_low s"
    using s r sha1_put_take [of s] by (simp_all add: s1_def sha1_rep_def r_def left_def v_def) (simp_all add: sha1_put_def)
  show ?thesis
  proof (cases "r < 56")
    case True
    then have "(119 - r) mod 64 = 55 - r"
      using le_mod_geq [of 64 "119 - r"] by simp
    then have "fips_hash v (left @ 0x80 # replicate ((119 - r) mod 64) 0 @ lenb)
        = fips_compress v (left @ 0x80 # replicate (55 - r) 0 @ lenb)"
      using r lenb blocks64_one [of "left @ 0x80 # replicate (55 - r) 0 @ lenb" "[]"] True by simp
    then show ?thesis
      using True s s1 blocks sha1_last_block [OF _ s1(3,4) refl]
      by (simp add: pad_message_def Let_def sha1_rep_def r_def lenb_def s1_def [symmetric] sha1_zeros_eq)
  next
    case False
    let ?first = "left @ 0x80 # replicate (63 - r) 0"
    have f: "length ?first = 64" using r by simp
    have "blocks64 (left @ 0x80 # replicate ((119 - r) mod 64) 0 @ lenb) = [?first, replicate 56 0 @ lenb]"
    proof -
      have "replicate (119 - r) (0 :: byte) = replicate (63 - r) 0 @ replicate 56 0"
        using False r by (simp flip: replicate_add)
      then show ?thesis
        using False r lenb blocks64_one [OF f, of "replicate 56 0 @ lenb"]
          blocks64_one [of "replicate 56 0 @ lenb" "[]"] by simp
    qed
    moreover define s2 where "s2 = sha1_zeros 64 s1"
    then have s2: "s2 = s1\<lparr>sh_block := ?first, sh_index := 64\<rparr>"
      using s1 r by (simp add: sha1_zeros_eq)
    then have "process_message_block s2 = s2\<lparr>sh_hash := hash_list (fips_compress v ?first), sh_index := 0\<rparr>"
      using f s1 process_block [of s2 v] by simp
    ultimately show ?thesis
      using False s s1 s2 f blocks
        sha1_last_block [of "process_message_block s2" "fips_compress v ?first" _ "sh_length_high s" "sh_length_low s"]
      by (simp add: pad_message_def Let_def sha1_rep_def r_def lenb_def s1_def [symmetric] s2_def [symmetric] sha1_zeros_eq)
  qed
qed

text \<open>The message is hashed as the standard says, however it is cut.\<close>

lemma sha1_pieces_hash:
  assumes "length mem = 64" "length (concat pieces) < 2 ^ 61"
  shows "fst (sha1_result (foldl sha1_input (sha1_new mem) pieces) digest) = fips_sha1 (concat pieces)"
proof -
  let ?s = "foldl sha1_input (sha1_new mem) pieces"
  have s: "sha1_rep ?s (concat pieces)"
    using sha1_rep_pieces [OF sha1_rep_new [OF assms(1)], of pieces] assms(2) by simp
  then have "\<not> sh_corrupted ?s" "\<not> sh_computed ?s" by (simp_all add: sha1_rep_def)
  then show ?thesis
    using sha1_pad [OF s]
    by (simp add: sha1_result_def finalize_def fips_sha1_def fips_H0_def hash_list_def be_bytes_unat Let_def
        split: prod.split)
qed

subsection \<open>base64\<close>

text \<open>A \<open>std::string\<close> is its list of bytes; a \<open>char\<close> of -1 is the byte 0xff.\<close>

definition enctable :: "byte list" where
  "enctable = map of_char ''ABCDEFGHIJKLMNOPQRSTUVWXYZabcdefghijklmnopqrstuvwxyz0123456789+/''"

definition dectable :: "byte list" where
  "dectable = [
   -1, -1, -1, -1, -1, -1, -1, -1, -1, -1, -1, -1, -1, -1, -1, -1,
     -1, -1, -1, -1, -1, -1, -1, -1, -1, -1, -1, -1, -1, -1, -1, -1,
     -1, -1, -1, -1, -1, -1, -1, -1, -1, -1, -1, 62, -1, -1, -1, 63,
     52, 53, 54, 55, 56, 57, 58, 59, 60, 61, -1, -1, -1, -1, -1, -1,
     -1,  0,  1,  2,  3,  4,  5,  6,  7,  8,  9, 10, 11, 12, 13, 14,
     15, 16, 17, 18, 19, 20, 21, 22, 23, 24, 25, -1, -1, -1, -1, -1,
     -1, 26, 27, 28, 29, 30, 31, 32, 33, 34, 35, 36, 37, 38, 39, 40,
     41, 42, 43, 44, 45, 46, 47, 48, 49, 50, 51, -1, -1, -1, -1, -1]"

definition enc :: "byte \<Rightarrow> byte" where
  "enc v = enctable ! unat v"

fun encode_from_array :: "byte list \<Rightarrow> byte list" where
  "encode_from_array [] = []"
| "encode_from_array [c1] =
     [enc (drop_bit 2 c1), enc (push_bit 4 (c1 AND 0x3)), of_char (CHR ''=''), of_char (CHR ''='')]"
| "encode_from_array [c1, c2] =
     [enc (drop_bit 2 c1), enc (push_bit 4 (c1 AND 0x3) OR drop_bit 4 (c2 AND 0xf0)),
      enc (push_bit 2 (c2 AND 0xf)), of_char (CHR ''='')]"
| "encode_from_array (c1 # c2 # c3 # s) =
     [enc (drop_bit 2 c1), enc (push_bit 4 (c1 AND 0x3) OR drop_bit 4 (c2 AND 0xf0)),
      enc (push_bit 2 (c2 AND 0xf) OR drop_bit 6 (c3 AND 0xc0)), enc (c3 AND 0x3f)]
     @ encode_from_array s"

text \<open>
  The inner loops of \<open>decode\<close>: the next character that is in the table, or -1 at the end.  At
  the end of the string they read its terminating 0.  \<open>None\<close>: the table is read outside its
  128 entries.
\<close>

fun b64_next :: "byte list \<Rightarrow> (byte \<times> byte list) option" where
  "b64_next [] = Some (-1, [])"
| "b64_next (c # s) =
     (if 128 \<le> c then None
      else let d = dectable ! unat c in if s \<noteq> [] \<and> d = -1 then b64_next s else Some (d, s))"

text \<open>The third and the fourth character may be \<open>=\<close>, which ends the text.\<close>

fun b64_next_or_pad :: "byte list \<Rightarrow> (byte option \<times> byte list) option" where
  "b64_next_or_pad [] = Some (Some (-1), [])"
| "b64_next_or_pad (c # s) =
     (if c = 61 then Some (None, s)
      else if 128 \<le> c then None
      else let d = dectable ! unat c in if s \<noteq> [] \<and> d = -1 then b64_next_or_pad s else Some (Some d, s))"

lemma b64_next_length: "b64_next s = Some (d, s') \<Longrightarrow> length s' \<le> length s - 1"
  by (induction s) (auto simp: Let_def split: if_splits)

lemma b64_next_or_pad_length: "b64_next_or_pad s = Some (d, s') \<Longrightarrow> length s' \<le> length s - 1"
  by (induction s) (auto simp: Let_def split: if_splits)

function base64_decode :: "byte list \<Rightarrow> byte list \<Rightarrow> byte list option" where
  "base64_decode s dest =
     (if s = [] then Some dest
      else case b64_next s of
        None \<Rightarrow> None
      | Some (c1, s1) \<Rightarrow>
          if c1 = -1 then Some dest
          else case b64_next s1 of
            None \<Rightarrow> None
          | Some (c2, s2) \<Rightarrow>
              if c2 = -1 then Some dest
              else let dest = dest @ [push_bit 2 c1 OR drop_bit 4 (c2 AND 0x30)] in
                case b64_next_or_pad s2 of
                  None \<Rightarrow> None
                | Some (None, s3) \<Rightarrow> Some dest
                | Some (Some c3, s3) \<Rightarrow>
                    if c3 = -1 then Some dest
                    else let dest = dest @ [push_bit 4 (c2 AND 0xf) OR drop_bit 2 (c3 AND 0x3c)] in
                      case b64_next_or_pad s3 of
                        None \<Rightarrow> None
                      | Some (None, s4) \<Rightarrow> Some dest
                      | Some (Some c4, s4) \<Rightarrow>
                          if c4 = -1 then Some dest
                          else base64_decode s4 (dest @ [push_bit 6 (c3 AND 0x03) OR c4]))"
  by pat_completeness auto

termination base64_decode
proof (relation "measure (\<lambda>(s, dest). length s)")
  fix s :: "byte list" and x c1 s1 x' c2 s2 y c3' s3 c3 y' c4' s4 c4 and dest d1 d2
  assume "s \<noteq> []" "b64_next s = Some x" "(c1, s1) = x" "b64_next s1 = Some x'" "(c2, s2) = x'"
    "b64_next_or_pad s2 = Some y" "(c3', s3) = y" "b64_next_or_pad s3 = Some y'" "(c4', s4) = y'"
  then have "length s1 \<le> length s - 1" "length s2 \<le> length s1 - 1" "length s3 \<le> length s2 - 1"
    "length s4 \<le> length s3 - 1" "0 < length s"
    by (auto dest: b64_next_length b64_next_or_pad_length)
  then have "length s4 < length s" by linarith
  then show "((s4, d2 @ [push_bit 6 (c3 AND 0x03) OR c4]), s, dest) \<in> measure (\<lambda>(s, dest). length s)"
    by simp
qed simp

declare base64_decode.simps [simp del]

lemma enctable_eq: "enctable = map of_nat ([65..<91] @ [97..<123] @ [48..<58] @ [43, 47])"
  by (simp add: enctable_def upt_rec_numeral)

lemma tables:
  "map (\<lambda>c. dectable ! unat c) enctable = map of_nat [0..<64]"
  "list_all (\<lambda>c. c < 128 \<and> c \<noteq> 61) enctable"
proof -
  have "[0..<64] = 0 # 1 # [2..<64]"
    using upt_conv_Cons [of 0 64] upt_conv_Cons [of 1 64] by (simp add: numeral_2_eq_2)
  then show "map (\<lambda>c. dectable ! unat c) enctable = map of_nat [0..<64]"
    by (simp add: enctable_eq dectable_def upt_rec_numeral)
qed (simp add: enctable_eq upt_rec_numeral)

lemma enc_digit:
  assumes "v < 64"
  shows "enc v < 128" "enc v \<noteq> 61" "dectable ! unat (enc v) = v" "v \<noteq> -1"
proof -
  have k: "unat v < 64" using assms by (simp add: word_less_nat_alt)
  have len: "length enctable = 64" by (simp add: enctable_def)
  have "map (\<lambda>c. dectable ! unat c) enctable ! unat v = map of_nat [0..<64] ! unat v"
    by (simp only: tables)
  then show "dectable ! unat (enc v) = v"
    using k len by (simp add: enc_def)
  have "enc v \<in> set enctable" using k len by (simp add: enc_def)
  then show "enc v < 128" "enc v \<noteq> 61"
    using tables(2) by (auto simp: list_all_iff)
  show "v \<noteq> -1" using k by (auto simp: unsigned_minus_1_eq_mask mask_eq_exp_minus_1)
qed

lemma b64_next_enc: "v < 64 \<Longrightarrow> b64_next (enc v # s) = Some (v, s)"
  using enc_digit [of v] by (simp add: not_le [symmetric])

lemma b64_next_or_pad_enc: "v < 64 \<Longrightarrow> b64_next_or_pad (enc v # s) = Some (Some v, s)"
  using enc_digit [of v] by (simp add: not_le [symmetric])

lemma six_bits:
  fixes w :: byte
  assumes "\<not> bit w 6" "\<not> bit w 7"
  shows "w < 64"
proof -
  have "w = take_bit 6 w"
    by (rule bit_word_eqI) (use assms in \<open>auto simp: bit_simps less_Suc_eq numeral_eq_Suc\<close>)
  then have "unat w = take_bit 6 (unat w)"
    by (metis unsigned_take_bit_eq)
  then have "unat w < 64"
    using take_bit_nat_less_exp [of 6 "unat w"] by simp
  then show ?thesis by (simp add: word_less_nat_alt)
qed

lemma b64_bits:
  fixes c1 c2 c3 :: byte
  shows "drop_bit 2 c1 < 64" "push_bit 4 (c1 AND 0x3) OR drop_bit 4 (c2 AND 0xf0) < 64"
    "push_bit 2 (c2 AND 0xf) OR drop_bit 6 (c3 AND 0xc0) < 64" "c3 AND 0x3f < 64"
    "push_bit 4 (c1 AND 0x3) < 64" "push_bit 2 (c2 AND 0xf) < 64"
  by (rule six_bits; simp add: bit_simps)+

lemma b64_join:
  fixes c1 c2 c3 :: byte
  shows "push_bit 2 (drop_bit 2 c1) OR drop_bit 4 ((push_bit 4 (c1 AND 0x3) OR drop_bit 4 (c2 AND 0xf0)) AND 0x30) = c1"
    "push_bit 2 (drop_bit 2 c1) OR drop_bit 4 (push_bit 4 (c1 AND 0x3) AND 0x30) = c1"
    "push_bit 4 ((push_bit 4 (c1 AND 0x3) OR drop_bit 4 (c2 AND 0xf0)) AND 0xf)
      OR drop_bit 2 ((push_bit 2 (c2 AND 0xf) OR drop_bit 6 (c3 AND 0xc0)) AND 0x3c) = c2"
    "push_bit 4 ((push_bit 4 (c1 AND 0x3) OR drop_bit 4 (c2 AND 0xf0)) AND 0xf)
      OR drop_bit 2 (push_bit 2 (c2 AND 0xf) AND 0x3c) = c2"
    "push_bit 6 ((push_bit 2 (c2 AND 0xf) OR drop_bit 6 (c3 AND 0xc0)) AND 0x03) OR (c3 AND 0x3f) = c3"
  by (rule bit_word_eqI; simp add: bit_simps; auto simp: less_Suc_eq numeral_eq_Suc)+

lemma b64_pad: "b64_next_or_pad (61 # s) = Some (None, s)"
  by simp

text \<open>One group of four characters.\<close>

lemma decode_group:
  assumes "v1 < 64" "v2 < 64"
  shows "v3 < 64 \<Longrightarrow> v4 < 64 \<Longrightarrow> base64_decode (enc v1 # enc v2 # enc v3 # enc v4 # s) dest =
      base64_decode s (dest @ [push_bit 2 v1 OR drop_bit 4 (v2 AND 0x30), push_bit 4 (v2 AND 0xf) OR drop_bit 2 (v3 AND 0x3c),
        push_bit 6 (v3 AND 0x03) OR v4])"
    "v3 < 64 \<Longrightarrow> base64_decode [enc v1, enc v2, enc v3, of_char (CHR ''='')] dest =
      Some (dest @ [push_bit 2 v1 OR drop_bit 4 (v2 AND 0x30), push_bit 4 (v2 AND 0xf) OR drop_bit 2 (v3 AND 0x3c)])"
    "base64_decode [enc v1, enc v2, of_char (CHR ''=''), of_char (CHR ''='')] dest =
      Some (dest @ [push_bit 2 v1 OR drop_bit 4 (v2 AND 0x30)])"
proof -
  note eval = b64_next_enc b64_next_or_pad_enc b64_pad enc_digit(4) Let_def
  show "v3 < 64 \<Longrightarrow> v4 < 64 \<Longrightarrow> base64_decode (enc v1 # enc v2 # enc v3 # enc v4 # s) dest =
      base64_decode s (dest @ [push_bit 2 v1 OR drop_bit 4 (v2 AND 0x30), push_bit 4 (v2 AND 0xf) OR drop_bit 2 (v3 AND 0x3c),
        push_bit 6 (v3 AND 0x03) OR v4])"
    using assms
    by (subst base64_decode.simps) (simp add: eval del: b64_next.simps b64_next_or_pad.simps)
  show "v3 < 64 \<Longrightarrow> base64_decode [enc v1, enc v2, enc v3, of_char (CHR ''='')] dest =
      Some (dest @ [push_bit 2 v1 OR drop_bit 4 (v2 AND 0x30), push_bit 4 (v2 AND 0xf) OR drop_bit 2 (v3 AND 0x3c)])"
    using assms
    by (subst base64_decode.simps) (simp add: eval del: b64_next.simps b64_next_or_pad.simps)
  show "base64_decode [enc v1, enc v2, of_char (CHR ''=''), of_char (CHR ''='')] dest =
      Some (dest @ [push_bit 2 v1 OR drop_bit 4 (v2 AND 0x30)])"
    using assms
    by (subst base64_decode.simps) (simp add: eval del: b64_next.simps b64_next_or_pad.simps)
qed

lemma base64_decode_encode: "base64_decode (encode_from_array s) dest = Some (dest @ s)"
proof (induction s arbitrary: dest rule: encode_from_array.induct)
  case 1
  show ?case by (simp add: base64_decode.simps)
next
  case (4 c1 c2 c3 s)
  show ?case
    by (simp only: encode_from_array.simps append.simps decode_group b64_bits b64_join 4) simp
qed (simp_all only: encode_from_array.simps decode_group b64_bits b64_join)

lemma encode_length: "length (encode_from_array s) = 4 * ((length s + 2) div 3)"
proof (induction s rule: encode_from_array.induct)
  case (4 c1 c2 c3 s)
  have "(length s + 3 + 2) div 3 = Suc ((length s + 2) div 3)" by simp
  then show ?case using 4 by simp
qed simp_all

subsection \<open>Properties\<close>

text \<open>
  C35 --- The \<open>sha1\<close> object computes SHA-1.  However a message of fewer than \<open>2^61\<close> bytes is cut
  into calls of \<open>input\<close>, and whatever memory the object and the digest were created in, \<open>result\<close>
  gives the digest that FIPS 180-4 defines for the whole message: the unrolled rounds, the
  rewritten choice and majority functions, the two-word length counter with its carry and the
  padding that may need a second block agree with the standard.
\<close>

theorem sha1_object_is_sha1:
  assumes "length mem = 64" "length (concat pieces) < 2 ^ 61"
  shows "fst (sha1_result (foldl sha1_input (sha1_new mem) pieces) digest) = fips_sha1 (concat pieces)"
  using assms by (rule sha1_pieces_hash)

theorem sha1_object_is_sha1_witness:
  "fst (sha1_result (foldl sha1_input (sha1_new (replicate 64 0)) [[0x61], [], [0x62, 0x63]]) [])
     = fips_sha1 [0x61, 0x62, 0x63]"
  using sha1_object_is_sha1 [of "replicate 64 0" "[[0x61], [], [0x62, 0x63]]" "[]"] by simp


end
