(* ===== verification/Ws_Codec.thy ===== *)
theory Ws_Codec
  imports Ws_Parser Http_Codec Cryptlite
begin

unbundle bit_operations_syntax

text \<open>
  The WebSocket codec of \<open>WsCodec.h\<close> and \<open>WsCodec.cpp\<close>: the client of \<open>ws_parser\<close> that
  collects messages in a queue, the decoder that starts with the HTTP handshake, the handshake
  response with its key, and the encoder.

  The lemmas: a stream of well-formed frames, cut into buffers in any way, is decoded into
  exactly its messages; the decoder never aborts; the encoder writes text frames as RFC 6455
  defines them.
\<close>

subsection \<open>The parser's client\<close>

record ws_client =
  wc_cur_data :: "byte list"
  wc_cur_data_type :: byte
  wc_cur_control :: "byte list"
  wc_cur_control_type :: byte
  wc_q :: "(byte \<times> byte list) list"

definition data_begin_cb :: "byte \<Rightarrow> ws_client \<Rightarrow> int \<times> ws_client" where
  "data_begin_cb t u = (0, u\<lparr>wc_cur_data := [], wc_cur_data_type := t\<rparr>)"

definition data_payload_cb :: "byte list \<Rightarrow> ws_client \<Rightarrow> int \<times> ws_client" where
  "data_payload_cb at u =
     (if length (wc_cur_data u) + length at > 1024 * 1024 then (WS_CONTROL_TOO_LONG, u)
      else (0, u\<lparr>wc_cur_data := wc_cur_data u @ at\<rparr>))"

definition data_end_cb :: "ws_client \<Rightarrow> int \<times> ws_client" where
  "data_end_cb u = (0, u\<lparr>wc_q := wc_q u @ [(wc_cur_data_type u, wc_cur_data u)]\<rparr>)"

definition control_begin_cb :: "byte \<Rightarrow> ws_client \<Rightarrow> int \<times> ws_client" where
  "control_begin_cb t u = (0, u\<lparr>wc_cur_control := [], wc_cur_control_type := t\<rparr>)"

definition control_payload_cb :: "byte list \<Rightarrow> ws_client \<Rightarrow> int \<times> ws_client" where
  "control_payload_cb at u = (0, u\<lparr>wc_cur_control := wc_cur_control u @ at\<rparr>)"

definition control_end_cb :: "ws_client \<Rightarrow> int \<times> ws_client" where
  "control_end_cb u = (0, u\<lparr>wc_q := wc_q u @ [(wc_cur_control_type u, wc_cur_control u)]\<rparr>)"

definition ws_cbs :: "ws_client ws_callbacks" where
  "ws_cbs = \<lparr>on_data_begin = data_begin_cb, on_data_payload = data_payload_cb, on_data_end = data_end_cb,
     on_control_begin = control_begin_cb, on_control_payload = control_payload_cb, on_control_end = control_end_cb\<rparr>"

lemmas ws_cb_defs = data_begin_cb_def data_payload_cb_def data_end_cb_def control_begin_cb_def
  control_payload_cb_def control_end_cb_def

lemma ws_cbs_sel [simp]:
  "on_data_begin ws_cbs = data_begin_cb" "on_data_payload ws_cbs = data_payload_cb" "on_data_end ws_cbs = data_end_cb"
  "on_control_begin ws_cbs = control_begin_cb" "on_control_payload ws_cbs = control_payload_cb"
  "on_control_end ws_cbs = control_end_cb"
  by (simp_all add: ws_cbs_def)

text \<open>A payload in two pieces is collected as the whole, and too long as the whole.\<close>

interpretation wp: chunked_callbacks ws_cbs
  by unfold_locales (auto simp: agree_def and_then_def ws_cb_defs ws_codes)

subsection \<open>Frames\<close>

datatype type_t = HANDSHAKE | HANDSHAKE_RESPONSE | TEXT | BINARY | CLOSE | PING | PONG

fun type_code :: "type_t \<Rightarrow> byte" where
  "type_code HANDSHAKE = 0x01"
| "type_code HANDSHAKE_RESPONSE = 0x02"
| "type_code TEXT = 0x03"
| "type_code BINARY = 0x04"
| "type_code CLOSE = 0x05"
| "type_code PING = 0x06"
| "type_code PONG = 0x07"

record data_frame =
  df_type :: type_t
  df_handshake :: "http_frame option"
  df_data :: "byte list"
  df_status :: int

definition data_frame_of :: "type_t \<Rightarrow> byte list \<Rightarrow> data_frame" where
  "data_frame_of t d = \<lparr>df_type = t, df_handshake = None, df_data = d, df_status = 0\<rparr>"

definition handshake_frame :: "type_t \<Rightarrow> http_frame \<Rightarrow> data_frame" where
  "handshake_frame t f = \<lparr>df_type = t, df_handshake = Some f, df_data = [], df_status = 0\<rparr>"

definition frame_type :: "byte \<Rightarrow> type_t option" where
  "frame_type t =
     (if t = WS_FRAME_TEXT then Some TEXT
      else if t = WS_FRAME_BINARY then Some BINARY
      else if t = WS_FRAME_CLOSE then Some CLOSE
      else if t = WS_FRAME_PING then Some PING
      else if t = WS_FRAME_PONG then Some PONG
      else None)"

definition pollFrame :: "ws_client \<Rightarrow> data_frame option outcome \<times> ws_client" where
  "pollFrame u =
     (case wc_q u of
        [] \<Rightarrow> (Ret None, u)
      | (t, d) # q \<Rightarrow>
          (case frame_type t of
             None \<Rightarrow> (Throw (RuntimeError ''Invalid frame type''), u\<lparr>wc_q := q\<rparr>)
           | Some t' \<Rightarrow> (Ret (Some (data_frame_of t' d)), u\<lparr>wc_q := q\<rparr>)))"

subsection \<open>The decoder\<close>

datatype decoder_state = HANDSHAKING | STREAMING

record ws_decoder =
  wd_s :: decoder_state
  wd_handshake :: Parser
  wd_parser :: ws_parser
  wd_client :: ws_client

text \<open>
  The constructors leave some fields as they find them in memory: all of the frame parser except
  the state and the fragment flag, and the two types of the client.
\<close>

definition RFC6455Decoder :: "ws_parser \<Rightarrow> byte \<Rightarrow> byte \<Rightarrow> ws_decoder" where
  "RFC6455Decoder mem t1 t2 =
     \<lparr>wd_s = HANDSHAKING, wd_handshake = Parser_new True False, wd_parser = ws_parser_init mem,
      wd_client = \<lparr>wc_cur_data = [], wc_cur_data_type = t1, wc_cur_control = [], wc_cur_control_type = t2,
        wc_q = []\<rparr>\<rparr>"

definition upgradeToWebsocket :: "http_frame \<Rightarrow> bool" where
  "upgradeToWebsocket req \<longleftrightarrow>
     hf_headers req (http_bytes ''Upgrade'') = Some (http_bytes ''websocket'')
     \<and> hf_headers req (http_bytes ''Sec-WebSocket-Version'') = Some (http_bytes ''13'')"

type_synonym ws_decode_result = "data_frame option outcome \<times> ws_decoder \<times> byte list list"

definition decoder_poll :: "ws_decoder \<Rightarrow> byte list list \<Rightarrow> ws_decode_result" where
  "decoder_poll d q = (case pollFrame (wd_client d) of (r, u) \<Rightarrow> (r, d\<lparr>wd_client := u\<rparr>, q))"

text \<open>One buffer in the handshake; \<open>None\<close> lets the loop go on.\<close>

definition decode_handshake :: "ws_decoder \<Rightarrow> byte list \<Rightarrow> data_frame option outcome option \<times> ws_decoder" where
  "decode_handshake d front =
     (case Parser_execute (wd_handshake d) front of
        None \<Rightarrow> (Some Abort, d)
      | Some (nparsed, p) \<Rightarrow>
          let d = d\<lparr>wd_handshake := p\<rparr> in
          if hp_upgrade (pa_parser p)
          then (if \<not> upgradeToWebsocket (pf_req (pa_fields p)) then (Some (Throw (IOError ''unsupported'')), d)
                else case moveResult p of (f, p') \<Rightarrow>
                  (Some (Ret (Some (handshake_frame HANDSHAKE f))), d\<lparr>wd_s := STREAMING, wd_handshake := p'\<rparr>))
          else if nparsed \<noteq> length front then (Some (Throw (IOError ''invalid http request'')), d)
          else if pf_completed (pa_fields p)
          then (Some (Throw (IOError ''must be websocket upgrade request'')), d)
          else (None, d))"

text \<open>One buffer of frames.  An unknown code has no name, and \<open>std::string\<close> is given a null pointer.\<close>

definition decode_frames :: "ws_decoder \<Rightarrow> byte list \<Rightarrow> data_frame option outcome option \<times> ws_decoder" where
  "decode_frames d front =
     (case ws_parser_execute ws_cbs (wd_parser d) (wd_client d) front of (rc, p, u) \<Rightarrow>
        let d = d\<lparr>wd_parser := p, wd_client := u\<rparr> in
        if rc \<noteq> WS_OK
        then (case ws_parser_error rc of
                None \<Rightarrow> (Some Abort, d)
              | Some name \<Rightarrow> (Some (Throw (IOError (''invalid ws data frame: '' @ name))), d))
        else if wc_q u \<noteq> [] then (case pollFrame u of (r, u) \<Rightarrow> (Some r, d\<lparr>wd_client := u\<rparr>))
        else (None, d))"

fun ws_decode_loop :: "ws_decoder \<Rightarrow> byte list list \<Rightarrow> ws_decode_result" where
  "ws_decode_loop d [] = (Ret None, d, [])"
| "ws_decode_loop d (front # q) =
     (if bufs_empty (front # q) then (Ret None, d, front # q)
      else case (if wd_s d = HANDSHAKING then decode_handshake d front else decode_frames d front) of
             (Some r, d) \<Rightarrow> (r, d, q)
           | (None, d) \<Rightarrow> ws_decode_loop d q)"

definition RFC6455Decoder_decode :: "ws_decoder \<Rightarrow> byte list list \<Rightarrow> ws_decode_result" where
  "RFC6455Decoder_decode d buf =
     (if wc_q (wd_client d) \<noteq> [] then decoder_poll d buf else ws_decode_loop d buf)"

subsection \<open>The handshake response and the encoder\<close>

definition kGUID :: string where
  "kGUID = ''258EAFA5-E914-47DA-95CA-C5AB0DC85B11''"

text \<open>The hash object and the digest live in memory with arbitrary contents.\<close>

definition acceptKey :: "byte list \<Rightarrow> byte list \<Rightarrow> byte list \<Rightarrow> byte list" where
  "acceptKey mem digest str =
     (let s = sha1_input (sha1_new mem) str; s = sha1_input s (http_bytes kGUID)
      in encode_from_array (fst (sha1_result s digest)))"

definition buildHandshakeResponse :: "byte list \<Rightarrow> byte list \<Rightarrow> http_frame \<Rightarrow> data_frame outcome" where
  "buildHandshakeResponse mem digest req =
     (let resp = HttpFrame\<lparr>hf_http_errno := 101,
            hf_headers := [http_bytes ''Upgrade'' \<mapsto> http_bytes ''websocket'', http_bytes ''Connection'' \<mapsto> http_bytes ''Upgrade'']\<rparr> in
      case hf_headers req (http_bytes ''Sec-WebSocket-Key'') of
        None \<Rightarrow> Throw (InvalidArgument ''invalid Sec-WebSocket-Key'')
      | Some key \<Rightarrow>
          if length key > 128 then Throw (InvalidArgument ''invalid Sec-WebSocket-Key'')
          else Ret (handshake_frame HANDSHAKE_RESPONSE
                 (resp\<lparr>hf_headers := (hf_headers resp)(http_bytes ''Sec-WebSocket-Accept'' \<mapsto> acceptKey mem digest key)\<rparr>)))"

definition encodeLength :: "nat \<Rightarrow> byte list" where
  "encodeLength len =
     (if 126 \<le> len
      then (let num_bytes = (if 0xffff < len then 8 else 2) in
            (if 0xffff < len then 127 else 126)
            # map (\<lambda>c. ucast (drop_bit (8 * c) (of_nat len :: 64 word) mod 256)) (rev [0..<num_bytes]))
      else [of_nat len])"

text \<open>
  The branches after the first compare the byte \<open>fsv\<close>, which is 0x80, with a frame type, as the
  source does.
\<close>

definition frame_first_byte :: "type_t \<Rightarrow> byte option" where
  "frame_first_byte t =
     (let fsv = 0x80 in
      if t = TEXT then Some (fsv OR WS_FRAME_TEXT)
      else if fsv = type_code CLOSE then Some (fsv OR WS_FRAME_CLOSE)
      else if fsv = type_code BINARY then Some (fsv OR WS_FRAME_BINARY)
      else if fsv = type_code PING then Some (fsv OR WS_FRAME_PING)
      else if fsv = type_code PONG then Some (fsv OR WS_FRAME_PONG)
      else None)"

definition RFC6455Encoder_encode ::
    "(byte list \<times> byte list) list \<Rightarrow> data_frame \<Rightarrow> byte list \<Rightarrow> (unit outcome \<times> byte list)" where
  "RFC6455Encoder_encode traversal out buf =
     (if df_type out = HANDSHAKE_RESPONSE
      then (case df_handshake out of
              None \<Rightarrow> (Abort, buf)
            | Some f \<Rightarrow> HttpV1ResponseEncoder_encode traversal f buf)
      else case frame_first_byte (df_type out) of
             None \<Rightarrow> (Throw (IOError ''unimpl''), buf)
           | Some fsv \<Rightarrow> (Ret (), buf @ fsv # encodeLength (length (df_data out)) @ df_data out))"

subsection \<open>The parser does not look at the queue\<close>

text \<open>
  Callbacks that commute with a change \<open>h\<close> of the client's state: so does the parser.  Here \<open>h\<close>
  puts messages in front of the queue.
\<close>

definition commutes :: "('u \<Rightarrow> 'u) \<Rightarrow> 'u ws_callbacks \<Rightarrow> bool" where
  "commutes h cb \<longleftrightarrow>
     (\<forall>t u. on_data_begin cb t (h u) = apsnd h (on_data_begin cb t u))
     \<and> (\<forall>t u. on_data_payload cb t (h u) = apsnd h (on_data_payload cb t u))
     \<and> (\<forall>u. on_data_end cb (h u) = apsnd h (on_data_end cb u))
     \<and> (\<forall>t u. on_control_begin cb t (h u) = apsnd h (on_control_begin cb t u))
     \<and> (\<forall>t u. on_control_payload cb t (h u) = apsnd h (on_control_payload cb t u))
     \<and> (\<forall>u. on_control_end cb (h u) = apsnd h (on_control_end cb u))"

definition lift_user :: "('u \<Rightarrow> 'u) \<Rightarrow> 'u ws_result \<Rightarrow> 'u ws_result" where
  "lift_user h r = (case r of (p, u, f) \<Rightarrow> (p, h u, f))"

lemma lift_user_simps [simp]:
  "lift_user h (p, u, f) = (p, h u, f)"
  "lift_user h (if c then r else r') = (if c then lift_user h r else lift_user h r')"
  by (simp_all add: lift_user_def)

lemma lift_user_push:
  "lift_user h (let x = t in f x) = (let x = t in lift_user h (f x))"
  "lift_user h (case q of (x, y) \<Rightarrow> g x y) = (case q of (x, y) \<Rightarrow> lift_user h (g x y))"
  "(let (x, y) = apsnd h r in k x y) = (let (x, y) = r in k x (h y))"
  by (simp_all add: Let_def case_prod_unfold)

lemmas lift_user_rules = lift_user_push lift_user_simps

lemma ws_step_commutes:
  assumes "commutes h cb"
  shows "ws_step cb p (h u) buff = lift_user h (ws_step cb p u buff)"
proof -
  have cb: "on_data_begin cb t (h u) = apsnd h (on_data_begin cb t u)"
    "on_data_payload cb bs (h u) = apsnd h (on_data_payload cb bs u)"
    "on_data_end cb (h u) = apsnd h (on_data_end cb u)"
    "on_control_begin cb t (h u) = apsnd h (on_control_begin cb t u)"
    "on_control_payload cb bs (h u) = apsnd h (on_control_payload cb bs u)"
    "on_control_end cb (h u) = apsnd h (on_control_end cb u)"
    "(if b then apsnd h r else apsnd h r') = apsnd h (if b then r else r')" for t bs u b r r'
    using assms by (auto simp: commutes_def)
  note rules = cb lift_user_rules
  have eop: "ws_end_of_payload cb p (h u) rest = lift_user h (ws_end_of_payload cb p u rest)" for p u rest
    by (simp only: ws_end_of_payload_def rules)
  have "ws_opcode cb p (h u) x rest = lift_user h (ws_opcode cb p u x rest)" for x rest
    by (simp only: ws_opcode_def rules)
  moreover have "ws_length cb p (h u) x rest = lift_user h (ws_length cb p u x rest)" for x rest
    by (simp only: ws_length_def rules eop)
  moreover have "ws_length_last p (h u) x lim rest = lift_user h (ws_length_last p u x lim rest)" for x lim rest
    by (simp only: ws_length_last_def rules)
  moreover have "ws_mask_last cb p (h u) x rest = lift_user h (ws_mask_last cb p u x rest)" for x rest
    by (simp only: ws_mask_last_def rules eop)
  moreover have "ws_payload cb p (h u) buff = lift_user h (ws_payload cb p u buff)"
    by (simp only: ws_payload_def rules eop)
  ultimately show ?thesis
    by (cases "wp_state p") (simp_all add: ws_step_def)
qed

lemma ws_execute_commutes:
  assumes "commutes h cb"
  shows "ws_parser_execute cb p (h u) buff = apsnd (apsnd h) (ws_parser_execute cb p u buff)"
  using assms
proof (induction cb p u buff rule: ws_parser_execute.induct)
  case (1 cb p u buff)
  show ?case
  proof (cases "buff = []")
    case False
    obtain p' u' f where st: "ws_step cb p u buff = (p', u', f)" by (cases "ws_step cb p u buff")
    then have st': "ws_step cb p (h u) buff = (p', h u', f)"
      using ws_step_commutes [OF 1(2)] by simp
    show ?thesis
    proof (cases f)
      case (Return rc)
      then show ?thesis
        using False st st' by (subst (1 2) ws_parser_execute.simps) simp
    next
      case (Continue rest)
      then show ?thesis
        using False st st' 1(1) [OF False st [symmetric] refl Continue 1(2)]
        by (subst (1 2) ws_parser_execute.simps) simp
    qed
  qed simp
qed

definition push_front :: "(byte \<times> byte list) list \<Rightarrow> ws_client \<Rightarrow> ws_client" where
  "push_front q0 u = u\<lparr>wc_q := q0 @ wc_q u\<rparr>"

lemma push_front_commutes: "commutes (push_front q0) ws_cbs"
  by (auto simp: commutes_def push_front_def ws_cb_defs)

subsection \<open>The decoder's invariant\<close>

text \<open>
  The mask has four bytes, a control frame is never a fragment, and whenever a frame is being
  read, or a fragmented message is open, the type of its message is one that \<open>pollFrame\<close> knows;
  so are the types in the queue.
\<close>

definition known_type :: "byte \<Rightarrow> bool" where
  "known_type t \<longleftrightarrow> frame_type t \<noteq> None"

definition ws_wf :: "ws_parser \<Rightarrow> ws_client \<Rightarrow> bool" where
  "ws_wf p u \<longleftrightarrow>
     length (wp_mask p) = 4
     \<and> (wp_fragment p \<longrightarrow> is_data (wc_cur_data_type u))
     \<and> (wp_state p \<noteq> S_OPCODE \<longrightarrow>
          (if wp_control p then wp_fin p \<and> is_control (wc_cur_control_type u)
           else is_data (wc_cur_data_type u)))
     \<and> list_all (\<lambda>(t, d). known_type t) (wc_q u)"

definition ws_flow_ok :: "ws_client ws_result \<Rightarrow> bool" where
  "ws_flow_ok r = (case r of (p, u, f) \<Rightarrow>
     ws_wf p u \<and> (case f of ws_flow.Return rc \<Rightarrow> ws_parser_error rc \<noteq> None | Continue rest \<Rightarrow> True))"

lemma is_data_known: "is_data t \<Longrightarrow> known_type t"
  by (auto simp: is_data_def known_type_def frame_type_def)

lemma is_control_known: "is_control t \<Longrightarrow> known_type t"
  by (auto simp: is_control_def known_type_def frame_type_def)

lemma ws_error_codes [simp]:
  "ws_parser_error WS_RESERVED_BITS_SET \<noteq> None" "ws_parser_error WS_INVALID_OPCODE \<noteq> None"
  "ws_parser_error WS_INVALID_CONTINUATION \<noteq> None" "ws_parser_error WS_CONTROL_TOO_LONG \<noteq> None"
  "ws_parser_error WS_NON_CANONICAL_LENGTH \<noteq> None" "ws_parser_error WS_FRAGMENTED_CONTROL \<noteq> None"
  by (simp_all add: ws_parser_error_def ws_codes)

lemma ws_step_wf:
  assumes "ws_wf p u"
  shows "ws_flow_ok (ws_step ws_cbs p u buff)"
proof -
  have eop: "ws_flow_ok (ws_end_of_payload ws_cbs p u rest)" if "ws_wf p u" "wp_state p \<noteq> S_OPCODE" for p u rest
    using that is_data_known is_control_known
    by (auto simp: ws_end_of_payload_def ws_flow_ok_def ws_wf_def ws_cb_defs)
  have "ws_flow_ok (ws_opcode ws_cbs p u x rest)" if "wp_state p = S_OPCODE" for x rest
    using assms that
    by (auto simp: ws_opcode_def ws_flow_ok_def ws_wf_def ws_cb_defs is_data_def is_control_def Let_def)
  moreover have "ws_flow_ok (ws_length ws_cbs p u x rest)" if "wp_state p = S_LENGTH" for x rest
    using assms that eop
    by (auto simp: ws_length_def Let_def ws_wf_def) (auto simp: ws_flow_ok_def ws_wf_def)
  moreover have "ws_flow_ok (ws_length_last p u x lim rest)" if "wp_state p \<noteq> S_OPCODE" for x lim rest
    using assms that
    by (auto simp: ws_length_last_def ws_length_byte_def after_length_def Let_def ws_flow_ok_def ws_wf_def)
  moreover have "ws_flow_ok (ws_mask_last ws_cbs p u x rest)" if "wp_state p \<noteq> S_OPCODE" for x rest
    using assms that eop
    by (auto simp: ws_mask_last_def ws_mask_byte_def Let_def ws_wf_def) (auto simp: ws_flow_ok_def ws_wf_def)
  moreover have "ws_flow_ok (ws_payload ws_cbs p u buff)" if "wp_state p \<noteq> S_OPCODE"
    using assms that eop
    by (auto simp: ws_payload_alt ws_payload_done_def on_payload_def Let_def ws_wf_def ws_cb_defs split: prod.split)
      (auto simp: ws_flow_ok_def ws_wf_def)
  ultimately show ?thesis
    using assms by (cases "wp_state p")
      (auto simp: ws_step_def ws_length_first_def ws_length_byte_def ws_mask_byte_def ws_flow_ok_def ws_wf_def Let_def)
qed

lemma ws_execute_wf:
  "ws_wf p u \<Longrightarrow> ws_parser_execute ws_cbs p u buff = (rc, p', u') \<Longrightarrow>
   ws_wf p' u' \<and> ws_parser_error rc \<noteq> None"
proof (induction ws_cbs p u buff rule: ws_parser_execute.induct)
  case (1 p u buff)
  show ?case
  proof (cases "buff = []")
    case True
    then show ?thesis using 1 by (simp add: ws_parser_error_def)
  next
    case False
    obtain p1 u1 f where st: "ws_step ws_cbs p u buff = (p1, u1, f)" by (cases "ws_step ws_cbs p u buff")
    have ok: "ws_flow_ok (p1, u1, f)"
      using ws_step_wf [OF 1(2), of buff] st by simp
    show ?thesis
    proof (cases f)
      case (Return rc')
      then show ?thesis
        using False st ok 1(3) by (subst (asm) ws_parser_execute.simps) (simp add: ws_flow_ok_def)
    next
      case (Continue rest)
      have "ws_parser_execute ws_cbs p1 u1 rest = (rc, p', u')"
        using False st Continue 1(3) by (subst (asm) ws_parser_execute.simps) simp
      then show ?thesis
        using 1(1) [OF False st [symmetric] refl Continue] ok by (simp add: ws_flow_ok_def)
    qed
  qed
qed

text \<open>What the decoder keeps between calls.\<close>

definition decoder_ok :: "ws_decoder \<Rightarrow> bool" where
  "decoder_ok d \<longleftrightarrow> Parser_ok (wd_handshake d) \<and> ws_wf (wd_parser d) (wd_client d)"

definition ws_errors :: "exn set" where
  "ws_errors = {IOError ''unsupported'', IOError ''invalid http request'', IOError ''must be websocket upgrade request''}
     \<union> (\<lambda>name. IOError (''invalid ws data frame: '' @ name))
         ` {''WS_RESERVED_BITS_SET'', ''WS_INVALID_OPCODE'', ''WS_INVALID_CONTINUATION'', ''WS_CONTROL_TOO_LONG'',
            ''WS_NON_CANONICAL_LENGTH'', ''WS_FRAGMENTED_CONTROL''}"

text \<open>Only a handshake carries an HTTP frame, and the decoder never gives a response.\<close>

definition frame_typed :: "data_frame \<Rightarrow> bool" where
  "frame_typed f \<longleftrightarrow> (df_type f = HANDSHAKE \<longleftrightarrow> df_handshake f \<noteq> None) \<and> df_type f \<noteq> HANDSHAKE_RESPONSE"

definition ws_outcome_ok :: "data_frame option outcome \<Rightarrow> bool" where
  "ws_outcome_ok r =
     (case r of
        Ret None \<Rightarrow> True
      | Ret (Some f) \<Rightarrow> frame_typed f
      | Throw e \<Rightarrow> e \<in> ws_errors
      | Abort \<Rightarrow> False)"

lemma ws_outcome_ok_none [simp]: "ws_outcome_ok (Ret None)"
  by (simp add: ws_outcome_ok_def)

lemma frame_type_typed: "frame_type t = Some t' \<Longrightarrow> frame_typed (data_frame_of t' d)"
  by (auto simp: frame_type_def frame_typed_def data_frame_of_def split: if_splits)

lemma decoder_new_ok: "length (wp_mask mem) = 4 \<Longrightarrow> decoder_ok (RFC6455Decoder mem t1 t2)"
  by (simp add: decoder_ok_def RFC6455Decoder_def Parser_new_ok ws_wf_def ws_parser_init_def)

lemma pollFrame_ok:
  assumes "ws_wf p u"
  shows "ws_outcome_ok (fst (pollFrame u)) \<and> ws_wf p (snd (pollFrame u))"
  using assms
  by (auto simp: pollFrame_def ws_wf_def known_type_def ws_outcome_ok_def frame_type_typed split: list.split option.split)

lemma ws_error_name: "ws_parser_error rc = Some name \<Longrightarrow> rc \<noteq> WS_OK \<Longrightarrow>
    IOError (''invalid ws data frame: '' @ name) \<in> ws_errors"
  by (auto simp: ws_parser_error_def ws_errors_def split: if_splits)

lemma decode_frames_ok:
  assumes "decoder_ok d" "decode_frames d front = (r, d')"
  shows "decoder_ok d' \<and> (case r of None \<Rightarrow> True | Some r \<Rightarrow> ws_outcome_ok r)"
proof -
  obtain rc p u where e: "ws_parser_execute ws_cbs (wd_parser d) (wd_client d) front = (rc, p, u)"
    by (cases "ws_parser_execute ws_cbs (wd_parser d) (wd_client d) front")
  have wf: "ws_wf p u" "ws_parser_error rc \<noteq> None"
    using ws_execute_wf [OF _ e] assms(1) by (auto simp: decoder_ok_def)
  then show ?thesis
    using assms e pollFrame_ok [OF wf(1)] ws_error_name [of rc]
    by (auto simp: decode_frames_def decoder_ok_def ws_outcome_ok_def Let_def split: if_splits prod.splits)
qed

lemma decode_handshake_ok:
  assumes "decoder_ok d" "decode_handshake d front = (r, d')"
  shows "decoder_ok d' \<and> (case r of None \<Rightarrow> True | Some r \<Rightarrow> ws_outcome_ok r)"
proof -
  have "Parser_ok (wd_handshake d)" using assms(1) by (simp add: decoder_ok_def)
  then obtain n p where e: "Parser_execute (wd_handshake d) front = Some (n, p)" "Parser_ok p"
    using Parser_execute_ok by metis
  then show ?thesis
    using assms moveResult_ok [of p]
    by (auto simp: decode_handshake_def decoder_ok_def ws_outcome_ok_def ws_errors_def frame_typed_def handshake_frame_def Let_def
        split: if_splits prod.splits)
qed

lemma ws_decode_loop_ok:
  "decoder_ok d \<Longrightarrow> ws_decode_loop d buf = (r, d', q) \<Longrightarrow> decoder_ok d' \<and> ws_outcome_ok r"
proof (induction buf arbitrary: d)
  case Nil
  then show ?case by auto
next
  case (Cons front buf)
  obtain r1 d1 where s: "(if wd_s d = HANDSHAKING then decode_handshake d front else decode_frames d front) = (r1, d1)"
    by fastforce
  then have ok: "decoder_ok d1 \<and> (case r1 of None \<Rightarrow> True | Some r \<Rightarrow> ws_outcome_ok r)"
    using decode_handshake_ok [OF Cons.prems(1)] decode_frames_ok [OF Cons.prems(1)] by (auto split: if_splits)
  show ?case
    using Cons.prems Cons.IH [of d1] s ok by (auto split: if_splits option.splits)
qed

lemma decode_ok:
  "decoder_ok d \<Longrightarrow> RFC6455Decoder_decode d buf = (r, d', q) \<Longrightarrow> decoder_ok d' \<and> ws_outcome_ok r"
  using ws_decode_loop_ok [of d buf r d' q] pollFrame_ok [of "wd_parser d" "wd_client d"]
  by (auto simp: RFC6455Decoder_decode_def decoder_poll_def decoder_ok_def split: if_splits prod.splits)

subsection \<open>Streams of frames\<close>

text \<open>
  A frame on the wire: the \<open>fin\<close> bit, the opcode, the masking key if there is one, and the
  payload.  \<open>ws_messages\<close> is the reference for RFC 6455's messages: a control frame is a message
  of its own, also between the fragments of another one; a data message is a text or binary frame
  and its continuation frames.  It is \<open>None\<close> for a stream that the protocol or the decoder's
  limit of one megabyte excludes.
\<close>

type_synonym wire_frame = "bool \<times> byte \<times> byte list option \<times> byte list"

definition ws_wire :: "wire_frame list \<Rightarrow> byte list" where
  "ws_wire fs = concat (map (\<lambda>(fin, opcode, key, d). ws_frame fin opcode key d) fs)"

definition key_ok :: "byte list option \<Rightarrow> bool" where
  "key_ok key \<longleftrightarrow> (case key of None \<Rightarrow> True | Some k \<Rightarrow> length k = 4)"

fun ws_messages :: "(byte \<times> byte list) option \<Rightarrow> wire_frame list \<Rightarrow> (byte \<times> byte list) list option" where
  "ws_messages pending [] = Some []"
| "ws_messages pending ((fin, opcode, key, d) # fs) =
     (if \<not> key_ok key then None
      else if is_control opcode
      then (if fin \<and> length d < 126 then map_option (Cons (opcode, d)) (ws_messages pending fs) else None)
      else
        case (if is_data opcode \<and> pending = None then Some (opcode, d)
              else if opcode = 0 then map_option (\<lambda>(t, acc). (t, acc @ d)) pending
              else None) of
          None \<Rightarrow> None
        | Some (t, acc) \<Rightarrow>
            if length acc > 1024 * 1024 then None
            else if fin then map_option (Cons (t, acc)) (ws_messages None fs)
            else ws_messages (Some (t, acc)) fs)"

definition pending_ok :: "(byte \<times> byte list) option \<Rightarrow> ws_parser \<Rightarrow> ws_client \<Rightarrow> bool" where
  "pending_ok pending p u \<longleftrightarrow>
     (case pending of
        None \<Rightarrow> True
      | Some (t, acc) \<Rightarrow> wp_fragment p \<and> is_data t \<and> wc_cur_data_type u = t \<and> wc_cur_data u = acc)"

lemma control_calls:
  "is_control opcode \<Longrightarrow> ws_frame_calls ws_cbs fin opcode d u =
     (0, u\<lparr>wc_cur_control := d, wc_cur_control_type := opcode, wc_q := wc_q u @ [(opcode, d)]\<rparr>)"
  by (auto simp: ws_frame_calls_def and_then_def ws_cb_defs is_control_def ws_frame_types)

lemma data_calls:
  assumes "is_data opcode" "length d \<le> 1024 * 1024"
  shows "ws_frame_calls ws_cbs fin opcode d u =
     (0, u\<lparr>wc_cur_data := d, wc_cur_data_type := opcode, wc_q := wc_q u @ (if fin then [(opcode, d)] else [])\<rparr>)"
  using assms
  by (auto simp: ws_frame_calls_def and_then_def ws_cb_defs is_data_def is_control_def ws_frame_types)

lemma continuation_calls:
  assumes "length (wc_cur_data u @ d) \<le> 1024 * 1024"
  shows "ws_frame_calls ws_cbs fin 0 d u =
     (0, u\<lparr>wc_cur_data := wc_cur_data u @ d,
       wc_q := wc_q u @ (if fin then [(wc_cur_data_type u, wc_cur_data u @ d)] else [])\<rparr>)"
  using assms
  by (auto simp: ws_frame_calls_def and_then_def ws_cb_defs is_control_def ws_frame_types)

lemma ws_frame_step:
  assumes ms: "ws_messages pending ((fin, opcode, key, d) # fs) = Some ms"
    and p: "wp_state p = S_OPCODE" "length (wp_mask p) = 4" "pending_ok pending p u"
  shows "\<exists>p' u' pending' ms1 ms'. wp_state p' = S_OPCODE \<and> length (wp_mask p') = 4 \<and> pending_ok pending' p' u'
    \<and> ws_messages pending' fs = Some ms' \<and> ms = ms1 @ ms' \<and> wc_q u' = wc_q u @ ms1
    \<and> ws_parser_execute ws_cbs p u (ws_frame fin opcode key d @ rest) = ws_parser_execute ws_cbs p' u' rest"
proof -
  have key: "\<And>k. key = Some k \<Longrightarrow> length k = 4"
    using ms by (auto simp: key_ok_def split: if_splits)
  have step: ?thesis
    if "opcode = 0 \<and> wp_fragment p \<or> is_data opcode \<or> is_control opcode \<and> fin \<and> length d < 126"
      "length d \<le> 1024 * 1024" "ws_frame_calls ws_cbs fin opcode d u = (0, u')" "wc_q u' = wc_q u @ ms1"
      "ws_messages pending' fs = Some ms'" "ms = ms1 @ ms'"
      "\<And>p'. wp_fragment p' = (if is_data opcode then \<not> fin else wp_fragment p) \<Longrightarrow> pending_ok pending' p' u'"
    for u' ms1 ms' pending'
  proof -
    note * = that
    obtain p' where "wp_state p' = S_OPCODE" "length (wp_mask p') = 4"
      "wp_fragment p' = (if is_data opcode then \<not> fin else wp_fragment p)"
      "ws_parser_execute ws_cbs p u (ws_frame fin opcode key d @ rest) = ws_parser_execute ws_cbs p' u' rest"
      using ws_frame_parses [where key = key and rest = rest, OF p(1,2) *(1) _ key *(3)] *(2) by auto
    then show ?thesis
      using *(4-7) by blast
  qed
  consider (control) "is_control opcode" | (data) "\<not> is_control opcode" "is_data opcode" "pending = None"
    | (continuation) t acc where "\<not> is_control opcode" "\<not> is_data opcode" "opcode = 0" "pending = Some (t, acc)"
    using ms by (cases pending) (auto simp: is_data_def ws_frame_types split: if_splits)
  then show ?thesis
  proof cases
    case control
    then obtain ms' where m: "fin" "length d < 126" "ws_messages pending fs = Some ms'" "ms = [(opcode, d)] @ ms'"
      using ms by (auto split: if_splits)
    have "\<not> is_data opcode" using control by (auto simp: is_control_def is_data_def ws_frame_types)
    then show ?thesis
      using control m p(3) by (intro step [OF _ _ control_calls _ m(3,4)]) (auto simp: pending_ok_def split: option.splits)
  next
    case data
    then have l: "length d \<le> 1024 * 1024" using ms by (auto split: if_splits)
    define pending' where "pending' = (if fin then None else Some (opcode, d))"
    obtain ms' where "ws_messages pending' fs = Some ms'" "ms = (if fin then [(opcode, d)] else []) @ ms'"
      using data ms l by (auto simp: pending'_def split: if_splits)
    then show ?thesis
      using data l by (intro step [OF _ _ data_calls]) (auto simp: pending_ok_def pending'_def)
  next
    case continuation
    then have l: "length (acc @ d) \<le> 1024 * 1024" using ms by (auto split: if_splits)
    have u: "wc_cur_data u = acc" "wc_cur_data_type u = t" "wp_fragment p" "is_data t"
      using p(3) continuation by (auto simp: pending_ok_def)
    define pending' where "pending' = (if fin then None else Some (t, acc @ d))"
    obtain ms' where "ws_messages pending' fs = Some ms'" "ms = (if fin then [(t, acc @ d)] else []) @ ms'"
      using continuation ms l by (auto simp: pending'_def split: if_splits)
    then show ?thesis
      using continuation l u continuation_calls [of u d fin]
      by (intro step [of "snd (ws_frame_calls ws_cbs fin opcode d u)"]) (auto simp: pending_ok_def pending'_def)
  qed
qed

lemma ws_stream_parses:
  assumes "ws_messages pending fs = Some ms" "wp_state p = S_OPCODE" "length (wp_mask p) = 4" "pending_ok pending p u"
  shows "\<exists>p' u'. ws_parser_execute ws_cbs p u (ws_wire fs) = (WS_OK, p', u') \<and> wc_q u' = wc_q u @ ms"
  using assms
proof (induction fs arbitrary: pending ms p u)
  case Nil
  then show ?case by (simp add: ws_wire_def)
next
  case (Cons f fs)
  obtain fin opcode key d where f: "f = (fin, opcode, key, d)" by (cases f)
  obtain p' u' pending' ms1 ms' where st: "wp_state p' = S_OPCODE" "length (wp_mask p') = 4" "pending_ok pending' p' u'"
    "ws_messages pending' fs = Some ms'" "ms = ms1 @ ms'" "wc_q u' = wc_q u @ ms1"
    "ws_parser_execute ws_cbs p u (ws_frame fin opcode key d @ ws_wire fs) = ws_parser_execute ws_cbs p' u' (ws_wire fs)"
    using ws_frame_step [OF Cons.prems(1) [unfolded f] Cons.prems(2-4), of "ws_wire fs"] by blast
  then show ?case
    using Cons.IH [OF st(4,1,2,3)] by (auto simp: f ws_wire_def)
qed

lemma ws_messages_known:
  assumes "ws_messages pending fs = Some ms" "\<And>t acc. pending = Some (t, acc) \<Longrightarrow> is_data t"
  shows "list_all (\<lambda>(t, d). known_type t) ms"
  using assms
proof (induction pending fs arbitrary: ms rule: ws_messages.induct)
  case (2 pending fin opcode key d fs)
  then show ?case
    by (auto simp: is_control_known is_data_known split: if_splits option.splits prod.splits)
qed simp

subsection \<open>Streams of frames in buffers\<close>

text \<open>The messages that are still to come: those in the queue, and those in the buffers.\<close>

definition ws_coming :: "ws_decoder \<Rightarrow> byte list list \<Rightarrow> (byte \<times> byte list) list \<Rightarrow> bool" where
  "ws_coming d bufs ms \<longleftrightarrow> wd_s d = STREAMING
     \<and> (\<exists>p' u'. ws_parser_execute ws_cbs (wd_parser d) ((wd_client d)\<lparr>wc_q := []\<rparr>) (concat bufs) = (WS_OK, p', u')
          \<and> ms = wc_q (wd_client d) @ wc_q u')"

lemma execute_front:
  assumes "ws_parser_execute ws_cbs p u (a @ b) = (WS_OK, p', u')"
  obtains p1 u1 where "ws_parser_execute ws_cbs p u a = (WS_OK, p1, u1)" "ws_parser_execute ws_cbs p1 u1 b = (WS_OK, p', u')"
proof -
  obtain rc p1 u1 where a: "ws_parser_execute ws_cbs p u a = (rc, p1, u1)"
    by (cases "ws_parser_execute ws_cbs p u a")
  then have "agree (0, p', u') (and_then (rc, p1, u1) (\<lambda>(p1, u1). ws_parser_execute ws_cbs p1 u1 b))"
    using wp.execute_append [of p u a b] assms by (simp add: WS_OK_def)
  then have "rc = 0" "ws_parser_execute ws_cbs p1 u1 b = (0, p', u')"
    by (auto simp: agree_def and_then_def prod_eq_iff split: if_splits)
  with a show thesis by (intro that) (simp_all add: WS_OK_def)
qed

lemma execute_queue:
  assumes "ws_parser_execute ws_cbs p u b = (WS_OK, p', u')"
  shows "\<exists>u''. ws_parser_execute ws_cbs p (u\<lparr>wc_q := []\<rparr>) b = (WS_OK, p', u'') \<and> wc_q u' = wc_q u @ wc_q u''"
proof -
  have "u = push_front (wc_q u) (u\<lparr>wc_q := []\<rparr>)" by (simp add: push_front_def)
  then have "apsnd (apsnd (push_front (wc_q u))) (ws_parser_execute ws_cbs p (u\<lparr>wc_q := []\<rparr>) b) = (WS_OK, p', u')"
    using ws_execute_commutes [OF push_front_commutes, of p "wc_q u" "u\<lparr>wc_q := []\<rparr>" b] assms by simp
  then show ?thesis
    by (cases "ws_parser_execute ws_cbs p (u\<lparr>wc_q := []\<rparr>) b") (auto simp: push_front_def)
qed

definition frame_of :: "byte \<times> byte list \<Rightarrow> data_frame" where
  "frame_of m = (case m of (t, d) \<Rightarrow> data_frame_of (the (frame_type t)) d)"

text \<open>What one call of \<open>decode\<close> makes of the messages to come.\<close>

definition decode_next :: "ws_decode_result \<Rightarrow> (byte \<times> byte list) list \<Rightarrow> bool" where
  "decode_next r ms \<longleftrightarrow>
     (case ms of
        [] \<Rightarrow> (\<exists>d' q. r = (Ret None, d', q) \<and> bufs_empty q)
      | m # ms' \<Rightarrow> (\<exists>d' q. r = (Ret (Some (frame_of m)), d', q) \<and> ws_coming d' q ms'))"

lemma poll_next:
  assumes "wc_q u = m # q" "known_type (fst m)"
  shows "pollFrame u = (Ret (Some (frame_of m)), u\<lparr>wc_q := q\<rparr>)"
  using assms by (cases m) (auto simp: pollFrame_def known_type_def frame_of_def)

lemma bufs_empty_concat: "bufs_empty bufs \<longleftrightarrow> concat bufs = []"
  by (auto simp: bufs_empty_def list_all_iff)

lemma ws_decode_loop_next:
  assumes "wd_s d = STREAMING" "wc_q (wd_client d) = []"
    and "ws_parser_execute ws_cbs (wd_parser d) (wd_client d) (concat bufs) = (WS_OK, p', u')"
    and "list_all (\<lambda>(t, d). known_type t) (wc_q u')"
  shows "decode_next (ws_decode_loop d bufs) (wc_q u')"
  using assms
proof (induction bufs arbitrary: d)
  case Nil
  then show ?case by (auto simp: decode_next_def bufs_empty_def split: list.split)
next
  case (Cons front bufs)
  show ?case
  proof (cases "bufs_empty (front # bufs)")
    case True
    then have "concat (front # bufs) = []" by (simp only: bufs_empty_concat)
    then have "ws_parser_execute ws_cbs (wd_parser d) (wd_client d) [] = (WS_OK, p', u')"
      using Cons.prems(3) by metis
    then have "u' = wd_client d" by simp
    then show ?thesis using True Cons.prems(2) by (simp add: decode_next_def)
  next
    case False
    obtain p1 u1 where e: "ws_parser_execute ws_cbs (wd_parser d) (wd_client d) front = (WS_OK, p1, u1)"
      "ws_parser_execute ws_cbs p1 u1 (concat bufs) = (WS_OK, p', u')"
      using execute_front [of "wd_parser d" "wd_client d" front "concat bufs"] Cons.prems(3) by auto
    obtain u2 where u2: "ws_parser_execute ws_cbs p1 (u1\<lparr>wc_q := []\<rparr>) (concat bufs) = (WS_OK, p', u2)"
      "wc_q u' = wc_q u1 @ wc_q u2"
      using execute_queue [OF e(2)] by blast
    define d1 where "d1 = d\<lparr>wd_parser := p1, wd_client := u1\<rparr>"
    show ?thesis
    proof (cases "wc_q u1")
      case Nil
      have "decode_next (ws_decode_loop d1 bufs) (wc_q u')"
        by (rule Cons.IH) (use Cons.prems Nil e in \<open>auto simp: d1_def\<close>)
      then show ?thesis
        using False Cons.prems(1) e(1) Nil by (simp add: decode_frames_def d1_def)
    next
      case (Cons m q)
      then have poll: "pollFrame u1 = (Ret (Some (frame_of m)), u1\<lparr>wc_q := q\<rparr>)"
        using Cons.prems(4) u2(2) by (intro poll_next) (auto split: prod.splits)
      have "ws_coming (d1\<lparr>wd_client := u1\<lparr>wc_q := q\<rparr>\<rparr>) bufs (q @ wc_q u2)"
        using Cons.prems(1) u2(1) by (simp add: ws_coming_def d1_def)
      then show ?thesis
        using False Cons.prems(1) e(1) Cons poll u2(2)
        by (simp add: decode_frames_def decode_next_def d1_def)
    qed
  qed
qed

lemma no_queue: "wc_q u = [] \<Longrightarrow> u\<lparr>wc_q := []\<rparr> = u"
  by (cases u) simp

lemma decode_coming:
  assumes "ws_coming d bufs ms" "list_all (\<lambda>(t, d). known_type t) ms"
  shows "decode_next (RFC6455Decoder_decode d bufs) ms"
proof (cases "wc_q (wd_client d)")
  case Nil
  then obtain p' u' where e: "wd_s d = STREAMING" "ms = wc_q u'"
    "ws_parser_execute ws_cbs (wd_parser d) (wd_client d) (concat bufs) = (WS_OK, p', u')"
    using assms(1) by (auto simp: ws_coming_def no_queue)
  then show ?thesis
    using ws_decode_loop_next [OF e(1) Nil e(3)] assms(2) Nil by (simp add: RFC6455Decoder_decode_def)
next
  case (Cons m q)
  then obtain ms' where ms: "ms = m # ms'" "ws_coming (d\<lparr>wd_client := (wd_client d)\<lparr>wc_q := q\<rparr>\<rparr>) bufs ms'"
    using assms(1) by (auto simp: ws_coming_def)
  then have "pollFrame (wd_client d) = (Ret (Some (frame_of m)), (wd_client d)\<lparr>wc_q := q\<rparr>)"
    using Cons assms(2) by (intro poll_next) (auto split: prod.splits)
  then show ?thesis
    using Cons ms by (simp add: RFC6455Decoder_decode_def decoder_poll_def decode_next_def)
qed

text \<open>A number of calls of \<open>decode\<close> on the same queue.\<close>

primrec ws_decode_calls :: "nat \<Rightarrow> ws_decoder \<Rightarrow> byte list list \<Rightarrow> data_frame option outcome list" where
  "ws_decode_calls 0 d bufs = []"
| "ws_decode_calls (Suc n) d bufs =
     (case RFC6455Decoder_decode d bufs of (r, d', q) \<Rightarrow> r # ws_decode_calls n d' q)"

lemma decode_calls_coming:
  "ws_coming d bufs ms \<Longrightarrow> list_all (\<lambda>(t, d). known_type t) ms \<Longrightarrow>
   ws_decode_calls (Suc (length ms)) d bufs = map (\<lambda>m. Ret (Some (frame_of m))) ms @ [Ret None]"
proof (induction ms arbitrary: d bufs)
  case Nil
  then show ?case using decode_coming [of d bufs "[]"] by (auto simp: decode_next_def)
next
  case (Cons m ms)
  then obtain d' q where "RFC6455Decoder_decode d bufs = (Ret (Some (frame_of m)), d', q)" "ws_coming d' q ms"
    using decode_coming [of d bufs "m # ms"] by (auto simp: decode_next_def)
  then show ?case using Cons by simp
qed

text \<open>A decoder between two frames, with nothing queued.\<close>

definition between_frames :: "ws_decoder \<Rightarrow> bool" where
  "between_frames d \<longleftrightarrow> wd_s d = STREAMING \<and> wp_state (wd_parser d) = S_OPCODE
     \<and> length (wp_mask (wd_parser d)) = 4 \<and> wc_q (wd_client d) = []"

lemma stream_coming:
  assumes "between_frames d" "ws_messages None fs = Some ms" "concat bufs = ws_wire fs"
  shows "ws_coming d bufs ms"
  using assms ws_stream_parses [OF assms(2), of "wd_parser d" "wd_client d"]
  by (auto simp: ws_coming_def between_frames_def pending_ok_def no_queue)

subsection \<open>Properties\<close>

inductive ws_reachable :: "ws_decoder \<Rightarrow> bool" where
  fresh: "length (wp_mask mem) = 4 \<Longrightarrow> ws_reachable (RFC6455Decoder mem t1 t2)"
| decode: "ws_reachable d \<Longrightarrow> RFC6455Decoder_decode d buf = (r, d', q) \<Longrightarrow> ws_reachable d'"

lemma ws_reachable_ok: "ws_reachable d \<Longrightarrow> decoder_ok d"
  by (induction rule: ws_reachable.induct) (auto simp: decoder_new_ok dest: decode_ok)



text \<open>
  C38 --- Type safety of the WebSocket decoder.  From whatever memory it was built in and whatever
  bytes it is fed, with errors thrown or not, the decoder stays well formed: the mask has its four
  bytes, every message being read or queued has a known type, and a control frame is never a
  fragment.  So a call never aborts and never throws \<open>Invalid frame type\<close>: it returns
  nothing, a frame that carries an HTTP request exactly when it is a handshake, or throws one of
  its documented errors, with the name of the parser's code.
\<close>

theorem ws_decoder_typed:
  assumes "ws_reachable d"
  shows "ws_wf (wd_parser d) (wd_client d)
    \<and> (case fst (RFC6455Decoder_decode d buf) of
         Ret None \<Rightarrow> True
       | Ret (Some f) \<Rightarrow> (df_type f = HANDSHAKE \<longleftrightarrow> df_handshake f \<noteq> None) \<and> df_type f \<noteq> HANDSHAKE_RESPONSE
       | Throw e \<Rightarrow> e \<in> ws_errors
       | Abort \<Rightarrow> False)"
proof -
  have ok: "decoder_ok d" using assms by (rule ws_reachable_ok)
  obtain r d' q where r: "RFC6455Decoder_decode d buf = (r, d', q)" by (cases "RFC6455Decoder_decode d buf")
  have "ws_outcome_ok r" using decode_ok [OF ok r] by simp
  then show ?thesis
    using ok r by (auto simp: decoder_ok_def ws_outcome_ok_def frame_typed_def split: outcome.splits option.splits)
qed

theorem ws_decoder_typed_witness:
  "\<exists>mem. fst (RFC6455Decoder_decode (RFC6455Decoder mem 0 0) [[0x81], [0x00]]) \<noteq> Abort"
proof -
  let ?mem = "\<lparr>wp_bytes_remaining = 7, wp_mask = [9, 9, 9, 9], wp_fragment = True, wp_fin = False,
         wp_control = True, wp_mask_flag = True, wp_mask_pos = 3, wp_state = S_MASK_1\<rparr>"
  have "ws_reachable (RFC6455Decoder ?mem 0 0)" by (rule ws_reachable.fresh) simp
  then have "fst (RFC6455Decoder_decode (RFC6455Decoder ?mem 0 0) [[0x81], [0x00]]) \<noteq> Abort"
    using ws_decoder_typed [of "RFC6455Decoder ?mem 0 0" "[[0x81], [0x00]]"] by (auto split: outcome.splits)
  then show ?thesis by blast
qed

lemma encodeLength_eq:
  assumes "len < 2 ^ 64"
  shows "encodeLength len = ws_length_field False (of_nat len)"
proof -
  have u: "unat (of_nat len :: 64 word) = len" using assms by (simp add: unat_of_nat)
  have less: "of_nat len < (126 :: 64 word) \<longleftrightarrow> len < 126" "of_nat len < (65536 :: 64 word) \<longleftrightarrow> len < 65536"
    by (simp_all add: word_less_nat_alt u)
  have r: "rev [0..<8] = [7, 6, 5, 4, 3, 2, 1, 0]" "rev [0..<2] = [1, 0]" by (simp_all add: upt_rec)
  have "byte_of 0 (of_nat len) = of_nat len"
    by (rule bit_word_eqI) (simp add: byte_of_def bit_simps)
  then show ?thesis
    by (auto simp: encodeLength_def ws_length_field_def less Let_def r byte_of_mod)
qed

text \<open>
  C39 --- The encoder writes a text message as one final, unmasked frame of RFC 6455 with the
  shortest length field, and can write nothing else: the branches for the other types compare
  the byte 0x80 instead of the type, so binary, close, ping and pong frames, and a handshake
  request, all end in \<open>IOError unimpl\<close> with the buffer unchanged.
\<close>

theorem ws_encode_text_only:
  assumes "df_type out \<noteq> HANDSHAKE_RESPONSE" "length (df_data out) < 2 ^ 64"
  shows "RFC6455Encoder_encode traversal out buf =
    (if df_type out = TEXT then (Ret (), buf @ ws_frame True WS_FRAME_TEXT None (df_data out))
     else (Throw (IOError ''unimpl''), buf))"
  using assms
  by (simp add: RFC6455Encoder_encode_def frame_first_byte_def ws_frame_def ws_frame_head_def encodeLength_eq Let_def)

theorem ws_encode_text_only_witness:
  "RFC6455Encoder_encode [] (data_frame_of TEXT [0x68, 0x69]) [] = (Ret (), [0x81, 2, 0x68, 0x69])
   \<and> RFC6455Encoder_encode [] (data_frame_of PONG []) [] = (Throw (IOError ''unimpl''), [])"
  using ws_encode_text_only [of "data_frame_of TEXT [0x68, 0x69]" "[]" "[]"]
    ws_encode_text_only [of "data_frame_of PONG []" "[]" "[]"]
  by (simp add: data_frame_of_def ws_frame_def ws_frame_head_def ws_length_field_def ws_frame_types byte_of_def)

lemma stray_continuation_parses:
  assumes "wp_state p = S_OPCODE" "length (wp_mask p) = 4" "length (a @ b @ c) \<le> 1024 * 1024"
  shows "\<exists>p' u'. ws_parser_execute ws_cbs p u
      (ws_wire [(False, WS_FRAME_TEXT, None, a), (True, 0, None, b), (True, 0, None, c)]) = (WS_OK, p', u')
    \<and> wc_q u' = wc_q u @ [(WS_FRAME_TEXT, a @ b), (WS_FRAME_TEXT, a @ b @ c)]"
proof -
  let ?f = "\<lambda>fin opcode. ws_frame fin opcode None"
  have op: "is_data WS_FRAME_TEXT" "\<not> is_data 0" by (simp_all add: is_data_def ws_frame_types)
  let ?u1 = "u\<lparr>wc_cur_data := a, wc_cur_data_type := WS_FRAME_TEXT\<rparr>"
  let ?u2 = "?u1\<lparr>wc_cur_data := a @ b, wc_q := wc_q u @ [(WS_FRAME_TEXT, a @ b)]\<rparr>"
  let ?u3 = "?u2\<lparr>wc_cur_data := a @ b @ c, wc_q := wc_q u @ [(WS_FRAME_TEXT, a @ b), (WS_FRAME_TEXT, a @ b @ c)]\<rparr>"
  obtain p1 where p1: "wp_state p1 = S_OPCODE" "length (wp_mask p1) = 4" "wp_fragment p1"
    "ws_parser_execute ws_cbs p u (?f False WS_FRAME_TEXT a @ ?f True 0 b @ ?f True 0 c)
       = ws_parser_execute ws_cbs p1 ?u1 (?f True 0 b @ ?f True 0 c)"
    using ws_frame_parses [OF assms(1,2), where opcode = WS_FRAME_TEXT and fin = False and d = a and key = None
        and cb = ws_cbs and u = u and u' = ?u1 and rest = "?f True 0 b @ ?f True 0 c"]
      op assms(3) data_calls [OF op(1), of a False u] by auto
  obtain p2 where p2: "wp_state p2 = S_OPCODE" "length (wp_mask p2) = 4" "wp_fragment p2"
    "ws_parser_execute ws_cbs p1 ?u1 (?f True 0 b @ ?f True 0 c) = ws_parser_execute ws_cbs p2 ?u2 (?f True 0 c)"
    using ws_frame_parses [OF p1(1,2), where opcode = 0 and fin = True and d = b and key = None
        and cb = ws_cbs and u = ?u1 and u' = ?u2 and rest = "?f True 0 c"]
      op assms(3) p1(3) continuation_calls [of ?u1 b True] by auto
  obtain p3 where "ws_parser_execute ws_cbs p2 ?u2 (?f True 0 c) = ws_parser_execute ws_cbs p3 ?u3 []"
    using ws_frame_parses [OF p2(1,2), where opcode = 0 and fin = True and d = c and key = None
        and cb = ws_cbs and u = ?u2 and u' = ?u3 and rest = "[]"]
      op assms(3) p2(3) continuation_calls [of ?u2 c True] by auto
  then show ?thesis
    using p1(4) p2(4) by (simp add: ws_wire_def)
qed

text \<open>
  C40 --- The final continuation frame of a message does not clear the parser's \<open>fragment\<close> flag,
  so one more continuation frame, which RFC 6455 forbids and the header promises to reject with
  \<open>WS_INVALID_CONTINUATION\<close>, is accepted: after a message in two fragments, a stray
  continuation is returned as a third message that begins with the data of the finished one.
\<close>

theorem ws_stray_continuation_accepted:
  assumes "between_frames d" "length (a @ b @ c) \<le> 1024 * 1024"
    and "concat bufs = ws_wire [(False, WS_FRAME_TEXT, None, a), (True, 0, None, b), (True, 0, None, c)]"
  shows "ws_messages None [(False, WS_FRAME_TEXT, None, a), (True, 0, None, b), (True, 0, None, c)] = None
    \<and> ws_decode_calls 3 d bufs =
        [Ret (Some (data_frame_of TEXT (a @ b))), Ret (Some (data_frame_of TEXT (a @ b @ c))), Ret None]"
proof
  let ?ms = "[(WS_FRAME_TEXT, a @ b), (WS_FRAME_TEXT, a @ b @ c)]"
  show "ws_messages None [(False, WS_FRAME_TEXT, None, a), (True, 0, None, b), (True, 0, None, c)] = None"
    by (simp add: key_ok_def is_control_def is_data_def ws_frame_types)
  have "ws_coming d bufs ?ms"
    using assms stray_continuation_parses [of "wd_parser d" a b c "wd_client d"]
    by (auto simp: ws_coming_def between_frames_def no_queue)
  then have "ws_decode_calls (Suc (length ?ms)) d bufs = map (\<lambda>m. Ret (Some (frame_of m))) ?ms @ [Ret None]"
    by (rule decode_calls_coming) (simp add: known_type_def frame_type_def)
  then show "ws_decode_calls 3 d bufs =
      [Ret (Some (data_frame_of TEXT (a @ b))), Ret (Some (data_frame_of TEXT (a @ b @ c))), Ret None]"
    by (simp add: numeral_3_eq_3 frame_of_def frame_type_def)
qed

theorem ws_stray_continuation_accepted_witness:
  "\<exists>d bufs. ws_decode_calls 3 d bufs =
     [Ret (Some (data_frame_of TEXT [1, 2])), Ret (Some (data_frame_of TEXT [1, 2, 3])), Ret None]"
proof -
  let ?d = "(RFC6455Decoder \<lparr>wp_bytes_remaining = 7, wp_mask = [9, 9, 9, 9], wp_fragment = True, wp_fin = False,
         wp_control = True, wp_mask_flag = True, wp_mask_pos = 3, wp_state = S_MASK_1\<rparr> 77 78)\<lparr>wd_s := STREAMING\<rparr>"
  let ?w = "ws_wire [(False, WS_FRAME_TEXT, None, [1]), (True, 0, None, [2]), (True, 0, None, [3])]"
  have "between_frames ?d" by (simp add: between_frames_def RFC6455Decoder_def ws_parser_init_def)
  then have "ws_decode_calls 3 ?d [?w] =
      [Ret (Some (data_frame_of TEXT [1, 2])), Ret (Some (data_frame_of TEXT [1, 2, 3])), Ret None]"
    using ws_stray_continuation_accepted [of ?d "[1]" "[2]" "[3]" "[?w]"] by simp
  then show ?thesis by blast
qed

subsection \<open>The handshake\<close>

text \<open>The key of the response is the one of RFC 6455, section 4.2.2.\<close>

lemma acceptKey_rfc:
  assumes "length mem = 64" "length key \<le> 128"
  shows "acceptKey mem digest key = encode_from_array (fips_sha1 (key @ http_bytes kGUID))"
  using sha1_pieces_hash [of mem "[key, http_bytes kGUID]" digest] assms
  by (simp add: acceptKey_def http_bytes_def kGUID_def Let_def)

lemmas ws_handshake_eval = http_codec_eval RFC6455Decoder_def RFC6455Decoder_decode_def decode_handshake_def
  upgradeToWebsocket_def handshake_frame_def

text \<open>Frames that arrive in the same buffer as the end of the handshake are dropped.\<close>

lemma frames_after_handshake_lost:
  "let req = http_bytes (''GET / HTTP/1.1'' @ crlf @ ''Upgrade: websocket'' @ crlf @ ''Connection: Upgrade'' @ crlf
         @ ''Sec-WebSocket-Version: 13'' @ crlf @ crlf) in
   \<exists>f d'. RFC6455Decoder_decode (RFC6455Decoder mem t1 t2) [req @ [0x81, 1, 0x61]] = (Ret (Some f), d', [])
     \<and> df_type f = HANDSHAKE \<and> RFC6455Decoder_decode d' [] = (Ret None, d', [])"
  by (simp add: ws_handshake_eval Let_def)

end
