(* ===== verification/Spec2Isabelle.thy ===== *)
theory Spec2Isabelle
  imports Multi Unpark_Mutex Buffered Ws_Codec
begin

text \<open>
  A verification library for the C++ futures library of this repository (paths below are under
  \<open>src/\<close>, headers under \<open>include/futures/\<close>).

  \<^bold>\<open>The program.\<close>  A \<^emph>\<open>future\<close> is an object with a member function \<open>poll\<close> that answers
  \<open>NotReady\<close>, a value or an exception, and arranges for the current \<^emph>\<open>task\<close> to be woken when it
  is worth polling again.  Combinators build futures from futures (\<open>Future.h\<close>, \<open>Future-inl.h\<close>,
  \<open>detail/\<close>), \<^emph>\<open>streams\<close> are futures of many items (\<open>Stream.h\<close>, \<open>Stream-inl.h\<close>), channels and
  promises connect tasks (\<open>channel/\<close>, \<open>Promise.h\<close>), and \<open>Task.h\<close> and \<open>UnparkMutex.h\<close> run them.  On
  top of it, codecs turn the buffers of a connection into messages: HTTP (\<open>http_parser.c\<close>,
  \<open>HttpParser.cpp\<close>, \<open>HttpCodec.cpp\<close>) and WebSocket (\<open>ws_parser.c\<close>, \<open>WsCodec.cpp\<close>, with the
  hash and the text encoding of \<open>cryptlite/\<close>).

  \<^bold>\<open>How it is modelled.\<close>  A C++ call is a value of \<open>outcome\<close> (theory \<open>Prelude\<close>): it returns,
  throws, or aborts (a failed \<open>assert\<close>, a null pointer).  A \<open>poll\<close> is a function of the object and of
  the rest of the world that gives the outcome with both of them updated, or \<open>None\<close> if the call
  never returns; loops that the source writes as \<open>while (true)\<close> are \<open>partial_function\<close>s, all other
  loops terminate and are proved to.  User callbacks, other threads and the contents of
  uninitialised memory are parameters.  Bytes, lengths and counters that can wrap are words of
  their width.  Every class is a record with the fields of the class, every enumeration a
  datatype, every member function one definition with its branches, early returns and
  exceptions.

  \<^bold>\<open>The theories.\<close>

  \<^item> \<open>Prelude\<close>: outcomes, exceptions, member calls and callbacks, and their rules.

  \<^item> \<open>Core_Types\<close>: \<open>Try\<close>, \<open>Optional\<close>, \<open>Either\<close>, \<open>Async\<close> with their moved-from and empty states
  (\<open>core/\<close>, \<open>Async.h\<close>, \<open>Exception.h\<close>).

  \<^item> \<open>Futures\<close>: the leaf futures, the state machine of \<open>andThen\<close>, \<open>then\<close>, \<open>orElse\<close>, \<open>map\<close> and their
  wrappers, \<open>join\<close> (\<open>Future.h\<close>, \<open>Future-inl.h\<close>).  \<open>ends\<close> says how a future that is polled
  until it is ready can end, under any interference of the environment between polls; the
  monad laws, the functional behaviour of each combinator and the absence of exceptions are
  stated with it.  The locales \<open>future_contract\<close> and \<open>then_contract\<close> are the contract of a
  future and of a chain.

  \<^item> \<open>Tasks\<close>: the task context, \<open>ThreadUnpark\<close> and \<open>wait_future\<close> (\<open>Task.h\<close>, \<open>ThreadLocalData.h\<close>).

  \<^item> \<open>Unpark_Mutex\<close>: the atomic operations of \<open>UnparkMutex.h\<close> and \<open>FutureSpawnRun\<close> as steps of any
  number of threads; mutual exclusion, no failed assertion, no lost wake-up, by invariants
  over all interleavings.

  \<^item> \<open>Multi\<close>: \<open>select\<close>, \<open>whenAll\<close>, \<open>whenAny\<close>, \<open>makeLoop\<close>, \<open>SharedFuture\<close> (\<open>detail/\<close>, \<open>Future.h\<close>).

  \<^item> \<open>Streams\<close>: sources, combinators and consumers of streams, as list functions on what a
  stream emits (locale \<open>stream_consumer\<close>, interpreted for each consumer).

  \<^item> \<open>Channels\<close>: the oneshot and the unbounded channel, sender handles, the receiver stream
  (locale \<open>fifo_source\<close>), and promises.

  \<^item> \<open>Buffered\<close>: the bounded channel with its waiters in an explicit store, refined to a
  first-in-first-out queue.

  \<^item> \<open>Bytes\<close>, \<open>Ws_Parser\<close>: the WebSocket byte automaton.  The locale \<open>chunked_callbacks\<close> is
  the contract of a client that does not care how a payload is cut; for such a client neither
  does the parser.

  \<^item> \<open>Http_Types\<close>, \<open>Http_Parser\<close>, \<open>Http_Safe\<close>: the HTTP parser, one definition per state of the
  \<open>switch\<close> (\<open>do_*\<close>), the macros as functions on an explicit control flow, and the proof that it
  never fails an assertion or reads outside its buffer, for every client that satisfies the
  locale \<open>http_client\<close>.

  \<^item> \<open>Http_Codec\<close>: \<open>http::Parser\<close>, which interprets \<open>http_client\<close>, the decoders and the encoders.

  \<^item> \<open>Cryptlite\<close>: \<open>sha1\<close> against FIPS 180-4, and \<open>base64\<close>.

  \<^item> \<open>Ws_Codec\<close>: the WebSocket decoder and encoder; the decoder interprets
  \<open>chunked_callbacks\<close>, and its handshake is the HTTP parser of \<open>Http_Codec\<close>.

  \<^bold>\<open>Bounds and hypotheses.\<close>  Lengths of buffers are natural numbers; where a length meets a
  machine integer the theorem has the bound (a SHA-1 message is shorter than \<open>2^61\<close> bytes, a
  WebSocket payload than \<open>2^64\<close>).  Assertions are enabled, as in the project's build.  Atomics are
  sequentially consistent and a locked member function is one step, as the code requests.
  \<open>ws_decode_calls n\<close> makes \<open>n\<close> calls and is used with one call more than there are messages,
  which is shown to be enough.

  \<^bold>\<open>Not modelled.\<close>  The parts whose behaviour is that of the operating system or of a library
  outside \<open>src/\<close>: sockets, TLS, files, subprocesses, pipes and name resolution, the event loop
  (\<open>libev\<close>) and the thread pools that only hand work to it, and the bundled third-party code.
  Of \<open>IOBuf\<close> only what the codecs observe is modelled, the sequence of buffers and their
  contents; reference counts and head- and tailroom are not.
\<close>

end
